theory Spec2Isabelle
  imports Main "HOL-Library.Word" "HOL-Library.Signed_Division"
begin

section \<open>Machine integers of the Go source\<close>

text \<open>
  \<^verbatim>\<open>type Amount = int64\<close>: a 64-bit two's complement integer. Go's \<open>+\<close>, \<open>-\<close> and
  \<open>*\<close> wrap around silently, which is what the word operations do. Go's \<open>int\<close> (the
  type of \<open>n\<close> in \<open>Split\<close>, of the ratios in \<open>Allocate\<close> and of \<open>precision\<close>
  in \<open>round\<close>) is taken to be 64 bits wide, as on every 64-bit Go target, so that the
  conversion \<open>int64(n)\<close> is the identity. Comparisons \<open><\<close>, \<open><=\<close> of the source are
  the signed ones, \<open><s\<close> and \<open>\<le>s\<close>.
\<close>

type_synonym Amount = "64 word"
type_synonym go_int = "64 word"

definition MaxInt64 :: Amount where
  "MaxInt64 = 9223372036854775807"

text \<open>
  Go's \<open>/\<close> and \<open>%\<close> on integers truncate towards zero, the remainder takes the sign
  of the dividend, and \<open>MinInt64 / -1\<close> wraps to \<open>MinInt64\<close> without a panic. The two
  functions below give the value of the operators for a divisor that is not zero; a zero
  divisor is a run-time panic and is checked wherever the source divides.
\<close>

definition trunc_quo :: "Amount \<Rightarrow> Amount \<Rightarrow> Amount" where
  "trunc_quo a d = word_of_int (sint a sdiv sint d)"

definition trunc_rem :: "Amount \<Rightarrow> Amount \<Rightarrow> Amount" where
  "trunc_rem a d = word_of_int (sint a smod sint d)"

text \<open>
  A Go run-time panic unwinds the stack and ends the process unless some caller recovers
  it. It is not a value returned to the direct caller, so it is kept apart from Go's
  \<open>error\<close> results: a function that may panic returns \<open>panic + 'a\<close>, with \<open>Inl\<close>
  for the panic. The last constructor is the run-time's fatal error on an exhausted heap,
  which ends the process and cannot even be recovered.
\<close>

datatype panic =
    DivideByZero      \<comment> \<open>runtime error: integer divide by zero\<close>
  | IndexOutOfRange   \<comment> \<open>runtime error: index out of range\<close>
  | NilDereference    \<comment> \<open>runtime error: invalid memory address or nil pointer dereference\<close>
  | MakesliceLenOutOfRange   \<comment> \<open>runtime error: makeslice: len out of range\<close>
  | OutOfMemory       \<comment> \<open>fatal error: runtime: out of memory\<close>

text \<open>
  Go's \<open>error\<close> values of the package: the one exported sentinel and the errors made
  on the spot by \<open>errors.New\<close>, kept with their message.
\<close>

datatype error =
    ErrCurrencyMismatch   \<comment> \<open>\<open>errors.New("currencies don't match")\<close>\<close>
  | ErrorsNew string

section \<open>calculator.go\<close>

definition add :: "Amount \<Rightarrow> Amount \<Rightarrow> Amount" where
  "add a b = a + b"

definition subtract :: "Amount \<Rightarrow> Amount \<Rightarrow> Amount" where
  "subtract a b = a - b"

definition multiply :: "Amount \<Rightarrow> Amount \<Rightarrow> Amount" where
  "multiply a m = a * m"

definition divide_calc :: "Amount \<Rightarrow> Amount \<Rightarrow> panic + Amount" where
  "divide_calc a d = (if d = 0 then Inl DivideByZero else Inr (trunc_quo a d))"

definition modulus :: "Amount \<Rightarrow> Amount \<Rightarrow> panic + Amount" where
  "modulus a d = (if d = 0 then Inl DivideByZero else Inr (trunc_rem a d))"

definition allocate :: "Amount \<Rightarrow> Amount \<Rightarrow> Amount \<Rightarrow> Amount" where
  "allocate a r s = (if a = 0 \<or> s = 0 then 0 else trunc_quo (a * r) s)"

definition absolute :: "Amount \<Rightarrow> Amount" where
  "absolute a = (if a <s 0 then - a else a)"

definition negative :: "Amount \<Rightarrow> Amount" where
  "negative a = - a"

text \<open>
  \<open>factor := int64(math.Pow(10, float64(precision)))\<close>. For \<open>0 \<le> precision \<le> 18\<close>
  the power is below \<open>2^63\<close> and a float64 holds it exactly (\<open>5^18 < 2^53\<close>;
  \<open>math.Pow(x, 0)\<close> is \<open>1\<close> by its documented special case), so the conversion gives
  \<open>10^precision\<close>. For a negative precision the power lies strictly between 0 and 1 and
  the conversion truncates it to 0. From \<open>precision = 19\<close> on the power exceeds
  \<open>MaxInt64\<close> and Go leaves the result of the conversion to the implementation: the
  parameter \<open>oor\<close> stands for what the platform returns there.
\<close>

definition pow10_int64 :: "(go_int \<Rightarrow> Amount) \<Rightarrow> go_int \<Rightarrow> Amount" where
  "pow10_int64 oor precision =
     (if precision <s 0 then 0
      else if precision \<le>s 18 then 10 ^ unat precision
      else oor precision)"

definition round :: "(go_int \<Rightarrow> Amount) \<Rightarrow> Amount \<Rightarrow> go_int \<Rightarrow> panic + Amount" where
  "round oor a precision =
     (if a = 0 then Inr 0
      else
        let absAmount = absolute a;
            factor = pow10_int64 oor precision
        in if factor = 0 then Inl DivideByZero
           else
             let remainder = trunc_rem absAmount factor;
                 absAmount = (if trunc_quo factor 2 \<le>s remainder
                              then absAmount + factor else absAmount);
                 rounded = trunc_quo absAmount factor * factor
             in Inr (if a <s 0 then - rounded else rounded))"

section \<open>Currency and Money\<close>

text \<open>
  \<open>Currency\<close> (currency.go) and \<open>Money\<close>. The \<open>currency\<close> field of a \<open>Money\<close>
  is a pointer to a \<open>Currency\<close> that no operation below writes to, and two currencies
  are compared by the value of their \<open>Code\<close>, so the record holds the currency itself.
\<close>

record Currency =
  Code :: string
  NumericCode :: string
  Fraction :: go_int
  Grapheme :: string
  Template :: string
  Decimal :: string
  Thousand :: string

record Money =
  amount :: Amount
  currency :: Currency

definition equals :: "Currency \<Rightarrow> Currency \<Rightarrow> bool" where
  "equals c oc \<longleftrightarrow> Code c = Code oc"

text \<open>
  \<open>Money.Round\<close> rounds the amount with the \<open>Fraction\<close> of the currency as precision
  and returns a new \<open>Money\<close>; it reads its receiver only, which is taken by value.
\<close>

definition Round :: "(go_int \<Rightarrow> Amount) \<Rightarrow> Money \<Rightarrow> panic + Money" where
  "Round oor m =
     (case round oor (amount m) (Fraction (currency m)) of
        Inl e \<Rightarrow> Inl e
      | Inr a \<Rightarrow> Inr \<lparr>amount = a, currency = currency m\<rparr>)"

section \<open>Split\<close>

text \<open>
  \<open>Split\<close> and \<open>Allocate\<close> read their receiver once and build their parts as fresh
  objects that only the returned slice refers to, so the parts are modelled by value, in
  a list. An index at or beyond the length of the slice is Go's index-out-of-range panic.
  Both functions return \<open>([]*Money, error)\<close>: the pair is kept, with the empty list
  for the \<open>nil\<close> slice.

  \<open>Split\<close> allocates as many parts as its caller asks for, and the Go run-time does
  not allocate any number of them. \<open>ms := make([]*Money, n)\<close> calls the run-time's
  \<open>makeslice\<close>, which panics with "makeslice: len out of range" when the size of the
  slice, \<open>n\<close> pointers of 8 bytes, exceeds the allocator's limit \<open>maxAlloc\<close>
  (\<open>2^48\<close> bytes on linux/amd64; the limit is below \<open>2^64\<close> on every platform, so
  the test also covers the overflow of the multiplication). Below that limit the slice
  and the \<open>n\<close> objects that the next loop allocates need free memory, and the process
  dies with "fatal error: runtime: out of memory" when there is not enough. Both depend
  on the platform and on the state of the process: they are the two fields of the
  parameter \<open>rt\<close>, the second one counted in parts (a slot of the slice and a
  \<open>Money\<close> object).
\<close>

record runtime =
  maxAlloc :: nat
  heap_parts :: nat

text \<open>
  The leftover loop of \<open>Split\<close>:
  \<^verbatim>\<open>for p := 0; l != 0; p++ { ms[p].amount = mutate.calc.add(ms[p].amount, v); l-- }\<close>
  The loop before it stores the same new value \<open>&Money{amount: a, currency: m.currency}\<close>
  in each of the \<open>n\<close> slots of the slice, which is \<open>replicate\<close>.
\<close>

function split_leftover :: "Money list \<Rightarrow> nat \<Rightarrow> Amount \<Rightarrow> Amount \<Rightarrow> panic + Money list" where
  "split_leftover ms p l v =
     (if l = 0 then Inr ms
      else if length ms \<le> p then Inl IndexOutOfRange
      else split_leftover (ms[p := (ms ! p)\<lparr>amount := add (amount (ms ! p)) v\<rparr>]) (Suc p) (l - 1) v)"
  by pat_completeness auto
termination
  by (relation "measure (\<lambda>(ms, p, l, v). length ms - p)") auto

definition Split :: "runtime \<Rightarrow> Money \<Rightarrow> go_int \<Rightarrow> panic + (Money list \<times> error option)" where
  "Split rt m n =
     (if n \<le>s 0 then Inr ([], Some (ErrorsNew ''split must be higher than zero''))
      else
        case divide_calc (amount m) n of
          Inl e \<Rightarrow> Inl e
        | Inr a \<Rightarrow>
            if maxAlloc rt < 8 * unat n then Inl MakesliceLenOutOfRange
            else if heap_parts rt < unat n then Inl OutOfMemory
            else
              let ms = replicate (unat n) \<lparr>amount = a, currency = currency m\<rparr> in
              case modulus (amount m) n of
                Inl e \<Rightarrow> Inl e
              | Inr r \<Rightarrow>
                  let l = absolute r;
                      v = (if amount m <s 0 then - 1 else 1)
                  in case split_leftover ms 0 l v of
                       Inl e \<Rightarrow> Inl e
                     | Inr ms' \<Rightarrow> Inr (ms', None))"

section \<open>Allocate\<close>

text \<open>
  \<open>Allocate\<close> builds one part for each ratio of a slice that its caller already holds
  in memory (\<open>make([]*Money, 0, len(rs))\<close> is within the limit of \<open>makeslice\<close>, since
  \<open>rs\<close> itself is a slice of 8-byte elements); its allocations are taken to succeed.
\<close>

text \<open>
  The first loop: the sum of the ratios, with its two checks (\<open>rsum\<close> is the variable
  \<open>sum\<close> of the source).
\<close>

fun ratio_sum :: "go_int list \<Rightarrow> Amount \<Rightarrow> error + Amount" where
  "ratio_sum [] rsum = Inr rsum"
| "ratio_sum (r # rs) rsum =
     (if r <s 0 then Inl (ErrorsNew ''negative ratios not allowed'')
      else if MaxInt64 - rsum <s r then Inl (ErrorsNew ''sum of given ratios exceeds max int'')
      else ratio_sum rs (rsum + r))"

text \<open>
  The second loop: one party for each ratio, appended to \<open>ms\<close>, and the total of the
  parties (\<open>tot\<close> is the variable \<open>total\<close> of the source).
\<close>

fun alloc_parties ::
  "Money \<Rightarrow> Amount \<Rightarrow> go_int list \<Rightarrow> Money list \<times> Amount \<Rightarrow> Money list \<times> Amount" where
  "alloc_parties m rsum [] (ms, tot) = (ms, tot)"
| "alloc_parties m rsum (r # rs) (ms, tot) =
     (let party = \<lparr>amount = allocate (amount m) r rsum, currency = currency m\<rparr>
      in alloc_parties m rsum rs (ms @ [party], tot + amount party))"

text \<open>
  The third loop:
  \<^verbatim>\<open>for p := 0; lo != 0; p++ { ms[p].amount = mutate.calc.add(ms[p].amount, sub); lo -= sub }\<close>
  The cursor \<open>p\<close> only ever grows; nothing in the loop takes it back to 0.
\<close>

function alloc_leftover :: "Money list \<Rightarrow> nat \<Rightarrow> Amount \<Rightarrow> Amount \<Rightarrow> panic + Money list" where
  "alloc_leftover ms p lo sub =
     (if lo = 0 then Inr ms
      else if length ms \<le> p then Inl IndexOutOfRange
      else alloc_leftover (ms[p := (ms ! p)\<lparr>amount := add (amount (ms ! p)) sub\<rparr>]) (Suc p) (lo - sub) sub)"
  by pat_completeness auto
termination
  by (relation "measure (\<lambda>(ms, p, lo, sub). length ms - p)") auto

definition Allocate :: "Money \<Rightarrow> go_int list \<Rightarrow> panic + (Money list \<times> error option)" where
  "Allocate m rs =
     (if rs = [] then Inr ([], Some (ErrorsNew ''no ratios specified''))
      else
        case ratio_sum rs 0 of
          Inl err \<Rightarrow> Inr ([], Some err)
        | Inr rsum \<Rightarrow>
            let (ms, tot) = alloc_parties m rsum rs ([], 0) in
            if rsum = 0 then Inr (ms, None)
            else
              let lo = amount m - tot;
                  sub = (if lo <s 0 then - 1 else 1)
              in case alloc_leftover ms 0 lo sub of
                   Inl e \<Rightarrow> Inl e
                 | Inr ms' \<Rightarrow> Inr (ms', None))"

section \<open>Comparison, Add and Subtract\<close>

text \<open>
  These methods take and return pointers to \<open>Money\<close>, and one claim is that they leave
  their operands as they were, so they are modelled over an explicit store: the heap is
  the list of the \<open>Money\<close> objects allocated so far, a pointer is an index into it, and
  a pointer outside the heap (Go's \<open>nil\<close>) cannot be dereferenced. A method that
  writes or allocates returns the heap it leaves behind; the comparison methods contain
  no assignment and return their results only.
\<close>

type_synonym ref = nat
type_synonym heap = "Money list"

definition deref :: "heap \<Rightarrow> ref \<Rightarrow> panic + Money" where
  "deref h p = (if p < length h then Inr (h ! p) else Inl NilDereference)"

definition SameCurrency :: "heap \<Rightarrow> ref \<Rightarrow> ref \<Rightarrow> panic + bool" where
  "SameCurrency h m om =
     (case deref h m of
        Inl e \<Rightarrow> Inl e
      | Inr mv \<Rightarrow>
          (case deref h om of
             Inl e \<Rightarrow> Inl e
           | Inr omv \<Rightarrow> Inr (equals (currency mv) (currency omv))))"

definition assertSameCurrency :: "heap \<Rightarrow> ref \<Rightarrow> ref \<Rightarrow> panic + error option" where
  "assertSameCurrency h m om =
     (case SameCurrency h m om of
        Inl e \<Rightarrow> Inl e
      | Inr same \<Rightarrow> Inr (if \<not> same then Some ErrCurrencyMismatch else None))"

definition compare :: "heap \<Rightarrow> ref \<Rightarrow> ref \<Rightarrow> panic + go_int" where
  "compare h m om =
     (case deref h m of
        Inl e \<Rightarrow> Inl e
      | Inr mv \<Rightarrow>
          (case deref h om of
             Inl e \<Rightarrow> Inl e
           | Inr omv \<Rightarrow>
               Inr (if amount omv <s amount mv then 1
                    else if amount mv <s amount omv then - 1
                    else 0)))"

definition Equals :: "heap \<Rightarrow> ref \<Rightarrow> ref \<Rightarrow> panic + (bool \<times> error option)" where
  "Equals h m om =
     (case assertSameCurrency h m om of
        Inl e \<Rightarrow> Inl e
      | Inr (Some err) \<Rightarrow> Inr (False, Some err)
      | Inr None \<Rightarrow>
          (case compare h m om of Inl e \<Rightarrow> Inl e | Inr c \<Rightarrow> Inr (c = 0, None)))"

definition GreaterThan :: "heap \<Rightarrow> ref \<Rightarrow> ref \<Rightarrow> panic + (bool \<times> error option)" where
  "GreaterThan h m om =
     (case assertSameCurrency h m om of
        Inl e \<Rightarrow> Inl e
      | Inr (Some err) \<Rightarrow> Inr (False, Some err)
      | Inr None \<Rightarrow>
          (case compare h m om of Inl e \<Rightarrow> Inl e | Inr c \<Rightarrow> Inr (c = 1, None)))"

definition GreaterThanOrEqual :: "heap \<Rightarrow> ref \<Rightarrow> ref \<Rightarrow> panic + (bool \<times> error option)" where
  "GreaterThanOrEqual h m om =
     (case assertSameCurrency h m om of
        Inl e \<Rightarrow> Inl e
      | Inr (Some err) \<Rightarrow> Inr (False, Some err)
      | Inr None \<Rightarrow>
          (case compare h m om of Inl e \<Rightarrow> Inl e | Inr c \<Rightarrow> Inr (0 \<le>s c, None)))"

definition LessThan :: "heap \<Rightarrow> ref \<Rightarrow> ref \<Rightarrow> panic + (bool \<times> error option)" where
  "LessThan h m om =
     (case assertSameCurrency h m om of
        Inl e \<Rightarrow> Inl e
      | Inr (Some err) \<Rightarrow> Inr (False, Some err)
      | Inr None \<Rightarrow>
          (case compare h m om of Inl e \<Rightarrow> Inl e | Inr c \<Rightarrow> Inr (c = - 1, None)))"

definition LessThanOrEqual :: "heap \<Rightarrow> ref \<Rightarrow> ref \<Rightarrow> panic + (bool \<times> error option)" where
  "LessThanOrEqual h m om =
     (case assertSameCurrency h m om of
        Inl e \<Rightarrow> Inl e
      | Inr (Some err) \<Rightarrow> Inr (False, Some err)
      | Inr None \<Rightarrow>
          (case compare h m om of Inl e \<Rightarrow> Inl e | Inr c \<Rightarrow> Inr (c \<le>s 0, None)))"

text \<open>
  On a mismatch \<open>Compare\<close> returns \<open>int(m.amount)\<close> next to the error (\<open>int\<close> and
  \<open>int64\<close> have the same width, so the conversion changes nothing).
\<close>

definition Compare :: "heap \<Rightarrow> ref \<Rightarrow> ref \<Rightarrow> panic + (go_int \<times> error option)" where
  "Compare h m om =
     (case assertSameCurrency h m om of
        Inl e \<Rightarrow> Inl e
      | Inr (Some err) \<Rightarrow>
          (case deref h m of Inl e \<Rightarrow> Inl e | Inr mv \<Rightarrow> Inr (amount mv, Some err))
      | Inr None \<Rightarrow>
          (case compare h m om of Inl e \<Rightarrow> Inl e | Inr c \<Rightarrow> Inr (c, None)))"

text \<open>
  The loop of \<open>Add\<close> and of \<open>Subtract\<close> (the same in both): for each operand
  \<open>m2\<close> in turn, \<^verbatim>\<open>if err := m.assertSameCurrency(m2); err != nil { return nil, err }\<close>
  and then \<^verbatim>\<open>k.amount = mutate.calc.add(k.amount, m2.amount)\<close>.
  \<open>k := New(0, m.currency.Code)\<close> is a local object that never leaves the method and of
  which only the \<open>amount\<close> field is read or written: the accumulator \<open>k\<close> of the model
  is that field. The loop ends at the first operand of another currency, with the error.
\<close>

fun sum_operands :: "heap \<Rightarrow> ref \<Rightarrow> ref list \<Rightarrow> Amount \<Rightarrow> panic + (error + Amount)" where
  "sum_operands h m [] k = Inr (Inr k)"
| "sum_operands h m (m2 # ms) k =
     (case assertSameCurrency h m m2 of
        Inl e \<Rightarrow> Inl e
      | Inr (Some err) \<Rightarrow> Inr (Inl err)
      | Inr None \<Rightarrow>
          (case deref h m2 of
             Inl e \<Rightarrow> Inl e
           | Inr m2v \<Rightarrow> sum_operands h m ms (add k (amount m2v))))"

text \<open>
  With no operand both methods return the receiver's own pointer, before anything is
  dereferenced. Otherwise \<open>m.currency.Code\<close> is read for \<open>New\<close>, the loop runs, and the
  result is a new object, allocated at the end of the heap; on an error the returned
  pointer is \<open>nil\<close> (\<open>None\<close>) and no object that the caller can reach has been
  allocated or written.
\<close>

definition Add :: "heap \<Rightarrow> ref \<Rightarrow> ref list \<Rightarrow> panic + (heap \<times> ref option \<times> error option)" where
  "Add h m ms =
     (if ms = [] then Inr (h, Some m, None)
      else
        case deref h m of
          Inl e \<Rightarrow> Inl e
        | Inr mv \<Rightarrow>
            (case sum_operands h m ms 0 of
               Inl e \<Rightarrow> Inl e
             | Inr (Inl err) \<Rightarrow> Inr (h, None, Some err)
             | Inr (Inr k) \<Rightarrow>
                 Inr (h @ [\<lparr>amount = add (amount mv) k, currency = currency mv\<rparr>],
                      Some (length h), None)))"

definition Subtract :: "heap \<Rightarrow> ref \<Rightarrow> ref list \<Rightarrow> panic + (heap \<times> ref option \<times> error option)" where
  "Subtract h m ms =
     (if ms = [] then Inr (h, Some m, None)
      else
        case deref h m of
          Inl e \<Rightarrow> Inl e
        | Inr mv \<Rightarrow>
            (case sum_operands h m ms 0 of
               Inl e \<Rightarrow> Inl e
             | Inr (Inl err) \<Rightarrow> Inr (h, None, Some err)
             | Inr (Inr k) \<Rightarrow>
                 Inr (h @ [\<lparr>amount = subtract (amount mv) k, currency = currency mv\<rparr>],
                      Some (length h), None)))"

section \<open>Three rows of the currency table\<close>

text \<open>
  The rows \<open>USD\<close>, \<open>EUR\<close> and \<open>JPY\<close> of the table \<open>currencies\<close> in
  currency.go, for concrete inputs (the euro and yen signs are written as their UTF-8
  bytes).
\<close>

definition USD :: Currency where
  "USD = \<lparr>Code = ''USD'', NumericCode = ''840'', Fraction = 2, Grapheme = ''$'',
          Template = ''$1'', Decimal = ''.'', Thousand = '',''\<rparr>"

definition EUR :: Currency where
  "EUR = \<lparr>Code = ''EUR'', NumericCode = ''978'', Fraction = 2,
          Grapheme = [CHR 0xE2, CHR 0x82, CHR 0xAC],
          Template = ''$1'', Decimal = ''.'', Thousand = '',''\<rparr>"

definition JPY :: Currency where
  "JPY = \<lparr>Code = ''JPY'', NumericCode = ''392'', Fraction = 0,
          Grapheme = [CHR 0xC2, CHR 0xA5],
          Template = ''$1'', Decimal = ''.'', Thousand = '',''\<rparr>"

text \<open>
  A run-time for concrete inputs: linux/amd64, where \<open>maxAlloc\<close> is \<open>2^48\<close>, with free
  memory for a million parts.
\<close>

definition linux_amd64 :: runtime where
  "linux_amd64 = \<lparr>maxAlloc = 281474976710656, heap_parts = 1000000\<rparr>"

text \<open>
  A heap of three objects for concrete inputs: \<open>New(100, "USD")\<close> at address 0,
  \<open>New(100, "EUR")\<close> at address 1 and \<open>New(250, "USD")\<close> at address 2.
\<close>

definition three_values :: heap where
  "three_values = [\<lparr>amount = 100, currency = USD\<rparr>, \<lparr>amount = 100, currency = EUR\<rparr>,
                   \<lparr>amount = 250, currency = USD\<rparr>]"

declare split_leftover.simps [simp del]
declare alloc_leftover.simps [simp del]

section \<open>Signed 64-bit arithmetic\<close>

text \<open>
  The proofs read every word through \<open>sint\<close> and work on the integers: the lemmas below
  say when an operation of the source does not wrap.
\<close>

lemmas eval_simps =
  trunc_quo_def trunc_rem_def signed_divide_int_def signed_modulo_int_def
  word_sless_alt word_sle_eq absolute_def add_def subtract_def multiply_def

lemma sint64_lower: "- 9223372036854775808 \<le> sint (x :: 64 word)"
  using sint_ge [of x] by simp

lemma sint64_upper: "sint (x :: 64 word) < 9223372036854775808"
  using sint_lt [of x] by simp

lemma sint64_word_of_int:
  "- 9223372036854775808 \<le> k \<Longrightarrow> k < 9223372036854775808 \<Longrightarrow> sint (word_of_int k :: 64 word) = k"
  by (simp add: sint_sbintrunc' signed_take_bit_int_eq_self)

lemma unat64_of_nonneg:
  assumes "0 \<le> sint (x :: 64 word)"
  shows "int (unat x) = sint x"
proof -
  have "sint x < 2 ^ 64"
    using sint64_upper [of x] by simp
  then have "take_bit 64 (sint x) = sint x"
    using assms by (simp add: take_bit_int_eq_self)
  moreover have "uint x = take_bit 64 (sint x)"
    using uint_word_of_int_eq [of "sint x", where ?'a = 64] by simp
  ultimately show ?thesis
    by (simp add: uint_nat [symmetric])
qed

lemma sint64_add:
  "- 9223372036854775808 \<le> sint a + sint b \<Longrightarrow> sint a + sint b < 9223372036854775808 \<Longrightarrow>
   sint (a + b :: 64 word) = sint a + sint b"
  using sint64_word_of_int [of "sint a + sint b"] by simp

lemma sint64_diff:
  "- 9223372036854775808 \<le> sint a - sint b \<Longrightarrow> sint a - sint b < 9223372036854775808 \<Longrightarrow>
   sint (a - b :: 64 word) = sint a - sint b"
  using sint64_word_of_int [of "sint a - sint b"] by simp

lemma sint64_mult:
  "- 9223372036854775808 \<le> sint a * sint b \<Longrightarrow> sint a * sint b < 9223372036854775808 \<Longrightarrow>
   sint (a * b :: 64 word) = sint a * sint b"
  using sint64_word_of_int [of "sint a * sint b"] by simp

lemma sint64_uminus:
  "sint (a :: 64 word) \<noteq> - 9223372036854775808 \<Longrightarrow> sint (- a) = - sint a"
proof -
  assume "sint a \<noteq> - 9223372036854775808"
  with sint64_lower [of a] sint64_upper [of a]
  have "- 9223372036854775808 \<le> - sint a" "- sint a < 9223372036854775808"
    by linarith+
  then have "sint (word_of_int (- sint a) :: 64 word) = - sint a"
    by (rule sint64_word_of_int)
  then show ?thesis by simp
qed

lemma sint_MaxInt64: "sint MaxInt64 = 9223372036854775807"
  by (simp add: MaxInt64_def)

lemma sint_absolute:
  "sint a \<noteq> - 9223372036854775808 \<Longrightarrow> sint (absolute a) = \<bar>sint a\<bar>"
  by (simp add: absolute_def word_sless_alt sint64_uminus)

lemma sdiv_pos_divisor:
  fixes A N :: int
  assumes "0 < N"
  shows "A sdiv N = (if 0 \<le> A then A div N else - ((- A) div N))"
  using assms by (auto simp: signed_divide_int_def sgn_if abs_if)

lemma smod_pos_divisor:
  fixes A N :: int
  assumes "0 < N"
  shows "A smod N = (if 0 \<le> A then A mod N else - ((- A) mod N))"
  using assms by (auto simp: signed_modulo_int_def sgn_if abs_if)

lemma sdiv_smod_pos_facts:
  fixes A N :: int
  assumes "0 < N"
  shows "N * (A sdiv N) + A smod N = A"
    and "\<bar>A smod N\<bar> < N"
    and "0 \<le> A \<Longrightarrow> 0 \<le> A sdiv N \<and> 0 \<le> A smod N"
    and "A < 0 \<Longrightarrow> A sdiv N \<le> 0 \<and> A smod N \<le> 0"
    and "\<bar>A sdiv N\<bar> \<le> \<bar>A\<bar>"
    and "A smod N \<noteq> 0 \<Longrightarrow> 2 * \<bar>A sdiv N\<bar> \<le> \<bar>A\<bar>"
proof -
  show eq: "N * (A sdiv N) + A smod N = A"
    by (fact mult_sdiv_smod_eq)
  show r: "\<bar>A smod N\<bar> < N"
  proof (cases "0 \<le> A")
    case True
    then have "A smod N = A mod N"
      by (simp add: smod_pos_divisor [OF assms])
    with pos_mod_bound [OF assms, of A] pos_mod_sign [OF assms, of A] show ?thesis
      by linarith
  next
    case False
    then have "A smod N = - ((- A) mod N)"
      by (simp add: smod_pos_divisor [OF assms])
    with pos_mod_bound [OF assms, of "- A"] pos_mod_sign [OF assms, of "- A"] show ?thesis
      by linarith
  qed
  show nonneg: "0 \<le> A \<Longrightarrow> 0 \<le> A sdiv N \<and> 0 \<le> A smod N"
    using assms by (simp add: sdiv_pos_divisor smod_pos_divisor pos_imp_zdiv_nonneg_iff)
  show neg: "A < 0 \<Longrightarrow> A sdiv N \<le> 0 \<and> A smod N \<le> 0"
    using assms by (simp add: sdiv_pos_divisor smod_pos_divisor pos_imp_zdiv_nonneg_iff)
  show "\<bar>A sdiv N\<bar> \<le> \<bar>A\<bar>"
    using sdiv_int_range [of A N] by auto
  show "2 * \<bar>A sdiv N\<bar> \<le> \<bar>A\<bar>" if "A smod N \<noteq> 0"
  proof -
    have "2 \<le> N" using r that by linarith
    then have "2 * \<bar>A sdiv N\<bar> \<le> N * \<bar>A sdiv N\<bar>"
      by (simp add: mult_right_mono)
    moreover have "\<bar>A\<bar> = N * \<bar>A sdiv N\<bar> + \<bar>A smod N\<bar>"
    proof (cases "0 \<le> A")
      case True
      with nonneg eq show ?thesis by simp
    next
      case False
      with neg have "\<bar>A sdiv N\<bar> = - (A sdiv N)" "\<bar>A smod N\<bar> = - (A smod N)" "\<bar>A\<bar> = - A"
        by simp_all
      with eq show ?thesis by simp
    qed
    ultimately show ?thesis by linarith
  qed
qed

lemma sint_trunc_quo_pos:
  assumes "0 <s n"
  shows "sint (trunc_quo a n) = sint a sdiv sint n"
proof -
  from assms have N: "0 < sint n" by (simp add: word_sless_alt)
  have "\<bar>sint a sdiv sint n\<bar> \<le> \<bar>sint a\<bar>"
    by (rule sdiv_smod_pos_facts(5) [OF N])
  moreover have "0 \<le> sint a \<Longrightarrow> 0 \<le> sint a sdiv sint n"
    using sdiv_smod_pos_facts(3) [OF N] by blast
  moreover have "sint a < 0 \<Longrightarrow> sint a sdiv sint n \<le> 0"
    using sdiv_smod_pos_facts(4) [OF N] by blast
  ultimately have "- 9223372036854775808 \<le> sint a sdiv sint n"
      "sint a sdiv sint n < 9223372036854775808"
    using sint64_lower [of a] sint64_upper [of a] by linarith+
  then show ?thesis
    unfolding trunc_quo_def by (rule sint64_word_of_int)
qed

lemma sint_trunc_rem_pos:
  assumes "0 <s n"
  shows "sint (trunc_rem a n) = sint a smod sint n"
proof -
  from assms have N: "0 < sint n" by (simp add: word_sless_alt)
  have "\<bar>sint a smod sint n\<bar> < sint n"
    by (rule sdiv_smod_pos_facts(2) [OF N])
  then have "- 9223372036854775808 \<le> sint a smod sint n"
      "sint a smod sint n < 9223372036854775808"
    using sint64_upper [of n] by linarith+
  then show ?thesis
    unfolding trunc_rem_def by (rule sint64_word_of_int)
qed

lemma sint_quo_times_divisor:
  assumes "0 <s f"
  shows "sint (trunc_quo x f * f) = (sint x sdiv sint f) * sint f"
proof -
  from assms have F: "0 < sint f" by (simp add: word_sless_alt)
  let ?q = "sint x sdiv sint f" and ?r = "sint x smod sint f"
  have eq: "sint f * ?q + ?r = sint x"
    by (rule sdiv_smod_pos_facts(1) [OF F])
  have "- 9223372036854775808 \<le> ?q * sint f \<and> ?q * sint f < 9223372036854775808"
  proof (cases "0 \<le> sint x")
    case True
    then have "0 \<le> ?q" "0 \<le> ?r"
      using sdiv_smod_pos_facts(3) [OF F, of "sint x"] by simp_all
    then have "0 \<le> ?q * sint f" "?q * sint f \<le> sint x"
      using F eq by (simp_all add: mult.commute)
    then show ?thesis using sint64_upper [of x] by linarith
  next
    case False
    then have "?q \<le> 0" "?r \<le> 0"
      using sdiv_smod_pos_facts(4) [OF F, of "sint x"] by simp_all
    then have "?q * sint f \<le> 0" "sint x \<le> ?q * sint f"
      using F eq by (simp_all add: mult.commute mult_le_0_iff)
    then show ?thesis using sint64_lower [of x] by linarith
  qed
  then show ?thesis
    using sint64_mult [of "trunc_quo x f" f] sint_trunc_quo_pos [OF assms, of x] by simp
qed

section \<open>Division by zero\<close>

text \<open>
  C9, as stated: for every amount \<open>a\<close>, \<open>divide(a, 0)\<close> and \<open>modulus(a, 0)\<close> report
  DivisionByZero to their direct caller as an explicit, recoverable error result. The
  two methods return a bare \<open>Amount\<close> and their doc comments say "Panics if divisor is
  0 (standard Go behavior ...)": at \<open>a = 7\<close> neither returns to its caller, both end in
  the run-time panic.
\<close>

theorem divide_by_zero_counterexample:
  "divide_calc 7 0 = Inl DivideByZero \<and> modulus 7 0 = Inl DivideByZero"
  by (simp add: divide_calc_def modulus_def)

text \<open>
  C9, amended: for every amount \<open>a\<close>, \<open>divide(a, 0)\<close> and \<open>modulus(a, 0)\<close> return
  nothing to the caller: they fail with Go's integer-divide-by-zero run-time panic,
  whatever the dividend.
\<close>

theorem divide_modulus_zero_panics:
  "divide_calc a 0 = Inl DivideByZero \<and> modulus a 0 = Inl DivideByZero"
  unfolding divide_calc_def modulus_def by simp

section \<open>Rounding\<close>

text \<open>
  C5 says \<open>round(a, 0) = a\<close> for every amount. With \<open>precision = 0\<close> the factor is 1,
  the remainder is 0 and the test \<open>remainder >= factor/2\<close> is \<open>0 >= 0\<close> because the
  integer division \<open>1/2\<close> is 0: the code always adds the factor. At \<open>a = 5\<close> it returns
  6, and at \<open>a = -5\<close> it returns \<open>-6\<close>. \<open>Money.Round\<close> calls it with precision 0
  for a currency without decimals: 1000 yen round to 1001 yen.
\<close>

theorem round_precision_zero_adds_one:
  "round oor 5 0 = Inr 6 \<and> round oor (- 5) 0 = Inr (- 6) \<and>
   Round oor \<lparr>amount = 1000, currency = JPY\<rparr> = Inr \<lparr>amount = 1001, currency = JPY\<rparr>"
  by (simp add: Round_def JPY_def round_def pow10_int64_def Let_def eval_simps)

text \<open>
  C6 says \<open>round(1235, 2) = 1240\<close> and \<open>round(1234, 2) = 1230\<close>, as the doc comment of
  \<open>round\<close> does. The code rounds to a multiple of \<open>10^2\<close>: both calls return 1200.
\<close>

theorem round_1235_2_is_1200:
  "round oor 1235 2 = Inr 1200 \<and> round oor 1234 2 = Inr 1200"
  by (simp add: round_def pow10_int64_def Let_def eval_simps)

text \<open>
  C7 says \<open>round(round(a, p), p) = round(a, p)\<close> for every amount and precision. At
  \<open>a = 5\<close>, \<open>p = 0\<close> the first call returns 6 and rounding 6 again returns 7.
\<close>

theorem round_not_idempotent_at_zero:
  "round oor 5 0 = Inr 6 \<and> round oor 6 0 = Inr 7"
  by (simp add: round_def pow10_int64_def Let_def eval_simps)

text \<open>
  What precision 0 does in general: every amount other than 0 moves one unit away from
  0 (in int64 arithmetic).
\<close>

lemma round_precision_zero:
  assumes "a \<noteq> 0"
  shows "round oor a 0 = Inr (if a <s 0 then a - 1 else a + 1)"
proof -
  have half: "(1 :: int) sdiv 2 = 0"
    by (simp add: signed_divide_int_def)
  show ?thesis
    using assms
    by (simp add: round_def pow10_int64_def Let_def trunc_quo_def trunc_rem_def
          signed_modulo_int_def half word_sle_eq absolute_def)
qed

text \<open>
  For the precisions 1 to 18 the factor is a power of ten between 10 and \<open>10^18\<close>, the
  result of \<open>round\<close> is a multiple of the factor, and \<open>round\<close> leaves a multiple of
  the factor as it is, wrap-around included: precision 0 is the only precision from 0 to
  18 at which rounding twice differs from rounding once.
\<close>

lemma pow10_int64_valid:
  assumes "1 \<le>s p" and "p \<le>s 18"
  shows "\<exists>k. 1 \<le> k \<and> k \<le> 18 \<and> sint (pow10_int64 oor p) = 10 ^ k"
proof -
  from assms have p: "1 \<le> sint p" "sint p \<le> 18"
    by (simp_all add: word_sle_eq)
  then have k: "1 \<le> unat p" "unat p \<le> 18"
    using unat64_of_nonneg [of p] by linarith+
  have "(10 :: int) ^ unat p \<le> 10 ^ 18"
    using k(2) by (intro power_increasing) simp_all
  then have "(10 :: int) ^ unat p < 9223372036854775808" by simp
  moreover have "- 9223372036854775808 \<le> (10 :: int) ^ unat p"
    by (rule order_trans [of _ 0]) simp_all
  ultimately have "sint (word_of_int (10 ^ unat p) :: 64 word) = 10 ^ unat p"
    by (intro sint64_word_of_int)
  moreover have "pow10_int64 oor p = word_of_int (10 ^ unat p)"
    using p by (simp add: pow10_int64_def word_sless_alt word_sle_eq)
  ultimately show ?thesis using k by auto
qed

lemma pow10_facts:
  fixes k :: nat
  assumes "1 \<le> k" and "k \<le> 18"
  shows "(10 :: int) \<le> 10 ^ k" and "(5 :: int) dvd 10 ^ k" and "(10 :: int) ^ k < 9223372036854775808"
proof -
  show "(10 :: int) \<le> 10 ^ k"
    using power_increasing [of 1 k "10 :: int"] assms(1) by simp
  have "(5 :: int) dvd 10" by simp
  then show "(5 :: int) dvd 10 ^ k"
    using assms(1) by (intro dvd_power_le [where n = 1 and m = k, simplified]) simp_all
  have "(10 :: int) ^ k \<le> 10 ^ 18"
    using assms(2) by (intro power_increasing) simp_all
  then show "(10 :: int) ^ k < 9223372036854775808" by simp
qed

lemma round_result_multiple:
  assumes "1 \<le>s p" and "p \<le>s 18"
  shows "\<exists>r. round oor a p = Inr r \<and> sint (pow10_int64 oor p) dvd sint r \<and>
             sint r \<noteq> - 9223372036854775808"
proof (cases "a = 0")
  case True
  then show ?thesis by (simp add: round_def)
next
  case False
  let ?f = "pow10_int64 oor p"
  from pow10_int64_valid [OF assms, of oor] obtain k where
    k: "1 \<le> k" "k \<le> 18" "sint ?f = 10 ^ k"
    by blast
  from pow10_facts [OF k(1,2)] k(3) have F: "10 \<le> sint ?f" "5 dvd sint ?f"
    by simp_all
  then have f: "0 <s ?f" "?f \<noteq> 0"
    by (auto simp: word_sless_alt)
  define x where "x = (if trunc_quo ?f 2 \<le>s trunc_rem (absolute a) ?f
                       then absolute a + ?f else absolute a)"
  let ?rounded = "trunc_quo x ?f * ?f"
  have M: "sint ?rounded = (sint x sdiv sint ?f) * sint ?f"
    by (rule sint_quo_times_divisor [OF f(1)])
  then have dvd: "sint ?f dvd sint ?rounded" by simp
  with F(2) have "5 dvd sint ?rounded" by (rule dvd_trans)
  then have ne: "sint ?rounded \<noteq> - 9223372036854775808"
    by (rule contrapos_pn) simp
  then have neg: "sint (- ?rounded) = - sint ?rounded"
    by (rule sint64_uminus)
  have "sint ?rounded < 9223372036854775808" by (rule sint64_upper)
  with neg have ne': "sint (- ?rounded) \<noteq> - 9223372036854775808" by linarith
  have "round oor a p = Inr (if a <s 0 then - ?rounded else ?rounded)"
    using False f(2) by (simp add: round_def Let_def x_def)
  with dvd ne neg ne' show ?thesis by auto
qed

lemma round_fixpoint:
  assumes "1 \<le>s p" and "p \<le>s 18"
    and "sint (pow10_int64 oor p) dvd sint r" and "sint r \<noteq> - 9223372036854775808"
  shows "round oor r p = Inr r"
proof (cases "r = 0")
  case True
  then show ?thesis by (simp add: round_def)
next
  case False
  let ?f = "pow10_int64 oor p"
  from pow10_int64_valid [OF assms(1,2), of oor] obtain k where
    k: "1 \<le> k" "k \<le> 18" "sint ?f = 10 ^ k"
    by blast
  from pow10_facts [OF k(1,2)] k(3) have F: "10 \<le> sint ?f"
    by simp
  then have f: "0 <s ?f" "?f \<noteq> 0"
    by (auto simp: word_sless_alt)
  have abs: "sint (absolute r) = \<bar>sint r\<bar>"
    by (rule sint_absolute [OF assms(4)])
  have dvd: "sint ?f dvd \<bar>sint r\<bar>"
    using assms(3) by simp
  have rem: "trunc_rem (absolute r) ?f = 0"
    using dvd F by (simp add: trunc_rem_def abs signed_modulo_int_def)
  have "sint (trunc_quo ?f 2) = sint ?f sdiv 2"
    using sint_trunc_quo_pos [of 2 ?f] by (simp add: word_sless_alt)
  also have "\<dots> = sint ?f div 2"
    using F by (simp add: signed_divide_int_def)
  finally have half: "\<not> trunc_quo ?f 2 \<le>s trunc_rem (absolute r) ?f"
    using F by (simp add: rem word_sle_eq)
  have "trunc_quo (absolute r) ?f * ?f = word_of_int ((\<bar>sint r\<bar> sdiv sint ?f) * sint ?f)"
    by (simp add: trunc_quo_def abs)
  also have "(\<bar>sint r\<bar> sdiv sint ?f) * sint ?f = \<bar>sint r\<bar>"
    using dvd F by (simp add: signed_divide_int_def)
  also have "word_of_int \<bar>sint r\<bar> = absolute r"
    using abs [symmetric] by simp
  finally have rounded: "trunc_quo (absolute r) ?f * ?f = absolute r" .
  have "round oor r p = Inr (if r <s 0 then - absolute r else absolute r)"
    using False f(2) half rounded by (simp add: round_def Let_def)
  then show ?thesis by (simp add: absolute_def)
qed

lemma round_idempotent_valid_precision:
  assumes "1 \<le>s p" and "p \<le>s 18"
  shows "\<exists>r. round oor a p = Inr r \<and> round oor r p = Inr r"
  using round_result_multiple [OF assms, of oor a] round_fixpoint [OF assms, of oor] by blast

section \<open>Split: conservation and fairness\<close>

lemma leftover_of_split:
  assumes "0 <s n"
  shows "int (unat (absolute (trunc_rem a n))) = \<bar>sint a smod sint n\<bar>"
proof -
  from assms have N: "0 < sint n" by (simp add: word_sless_alt)
  have r: "sint (trunc_rem a n) = sint a smod sint n"
    by (rule sint_trunc_rem_pos [OF assms])
  have "\<bar>sint a smod sint n\<bar> < sint n"
    by (rule sdiv_smod_pos_facts(2) [OF N])
  with r sint64_upper [of n] have "sint (trunc_rem a n) \<noteq> - 9223372036854775808"
    by linarith
  then have "sint (absolute (trunc_rem a n)) = \<bar>sint a smod sint n\<bar>"
    using r by (simp add: sint_absolute)
  then show ?thesis
    using unat64_of_nonneg [of "absolute (trunc_rem a n)"] by simp
qed

text \<open>
  On a slice of \<open>n\<close> equal parts the leftover loop of \<open>Split\<close> adds \<open>v\<close> to the
  first \<open>l\<close> parts and stops, as long as \<open>l\<close> is at most \<open>n\<close>.
\<close>

lemma split_leftover_replicate:
  "length pre = p \<Longrightarrow> unat l \<le> n \<Longrightarrow>
   split_leftover (pre @ replicate n x) p l v =
     Inr (pre @ replicate (unat l) (x\<lparr>amount := add (amount x) v\<rparr>) @ replicate (n - unat l) x)"
proof (induction "unat l" arbitrary: l pre p n)
  case 0
  then have "l = 0" by (simp add: unat_eq_0)
  then show ?case by (simp add: split_leftover.simps)
next
  case (Suc k)
  then have "l \<noteq> 0" by auto
  with Suc.hyps(2) have l: "l \<noteq> 0" "unat (l - 1) = k"
    by (simp_all add: unat_minus_one)
  from Suc obtain n' where n: "n = Suc n'" "unat (l - 1) \<le> n'"
    using l by (cases n) auto
  let ?y = "x\<lparr>amount := add (amount x) v\<rparr>"
  have "split_leftover (pre @ replicate n x) p l v =
          split_leftover ((pre @ [?y]) @ replicate n' x) (Suc p) (l - 1) v"
    using l(1) Suc.prems(1) n(1)
    by (subst split_leftover.simps) (simp add: nth_append list_update_append)
  also have "\<dots> = Inr ((pre @ [?y]) @ replicate (unat (l - 1)) ?y @ replicate (n' - unat (l - 1)) x)"
    using Suc.hyps(1) [of "l - 1" "pre @ [?y]" "Suc p" n'] l n Suc.prems(1) by simp
  also have "\<dots> = Inr (pre @ replicate (unat l) ?y @ replicate (n - unat l) x)"
    using l n Suc.hyps(2) [symmetric] by (simp add: replicate_append_same)
  finally show ?case .
qed

text \<open>
  The remainder of a division by \<open>n > 0\<close> is smaller than \<open>n\<close>, so the cursor stays
  inside the slice and \<open>Split\<close> returns the first parts bumped by one unit and the
  others at the quotient.
\<close>

lemma Split_parts:
  assumes "0 <s n" and "8 * unat n \<le> maxAlloc rt" and "unat n \<le> heap_parts rt"
  shows "Split rt m n =
    Inr (replicate (unat (absolute (trunc_rem (amount m) n)))
           \<lparr>amount = trunc_quo (amount m) n + (if amount m <s 0 then - 1 else 1),
            currency = currency m\<rparr> @
         replicate (unat n - unat (absolute (trunc_rem (amount m) n)))
           \<lparr>amount = trunc_quo (amount m) n, currency = currency m\<rparr>, None)"
proof -
  from assms(1) have N: "0 < sint n" by (simp add: word_sless_alt)
  then have n: "\<not> n \<le>s 0" "n \<noteq> 0"
    by (auto simp: word_sle_eq)
  have "int (unat (absolute (trunc_rem (amount m) n))) < sint n"
    using leftover_of_split [OF assms(1), of "amount m"]
      sdiv_smod_pos_facts(2) [OF N, of "sint (amount m)"]
    by simp
  moreover have "int (unat n) = sint n"
    using N unat64_of_nonneg [of n] by linarith
  ultimately have le: "unat (absolute (trunc_rem (amount m) n)) \<le> unat n"
    by linarith
  show ?thesis
    using n assms(2,3) split_leftover_replicate [of "[]" 0, OF _ le]
    by (simp add: Split_def divide_calc_def modulus_def Let_def add_def)
qed

text \<open>
  \<open>Split\<close> hands parts back only for a positive \<open>n\<close> that the run-time could
  allocate; above the limit of \<open>makeslice\<close> it panics.
\<close>

lemma Split_returns_only_if:
  assumes "Split rt m n = Inr (ms, None)"
  shows "0 <s n \<and> 8 * unat n \<le> maxAlloc rt \<and> unat n \<le> heap_parts rt"
proof -
  from assms have "\<not> n \<le>s 0"
    by (auto simp: Split_def)
  then have pos: "0 <s n" and nz: "n \<noteq> 0"
    by (auto simp: word_sle_eq word_sless_alt)
  from assms \<open>\<not> n \<le>s 0\<close> nz have "\<not> maxAlloc rt < 8 * unat n" "\<not> heap_parts rt < unat n"
    by (auto simp: Split_def divide_calc_def split: if_splits)
  with pos show ?thesis by simp
qed

lemma Split_makeslice_panic:
  assumes "0 <s n" and "maxAlloc rt < 8 * unat n"
  shows "Split rt m n = Inl MakesliceLenOutOfRange"
proof -
  from assms(1) have "\<not> n \<le>s 0" "n \<noteq> 0"
    by (auto simp: word_sle_eq word_sless_alt)
  with assms(2) show ?thesis
    by (simp add: Split_def divide_calc_def)
qed

lemma sint_bumped_quo:
  assumes "0 <s n" and "sint a smod sint n \<noteq> 0"
  shows "sint (trunc_quo a n + (if a <s 0 then - 1 else 1)) =
         sint a sdiv sint n + (if sint a < 0 then - 1 else 1)"
proof -
  from assms have N: "0 < sint n" by (simp add: word_sless_alt)
  let ?q = "sint a sdiv sint n"
  let ?s = "if sint a < 0 then - 1 else 1 :: int"
  have "2 * \<bar>?q\<bar> \<le> \<bar>sint a\<bar>"
    by (rule sdiv_smod_pos_facts(6) [OF N assms(2)])
  then have "- 9223372036854775808 \<le> ?q + ?s" "?q + ?s < 9223372036854775808"
    using sint64_lower [of a] sint64_upper [of a] by (auto split: if_splits)
  then have "sint (word_of_int (?q + ?s) :: 64 word) = ?q + ?s"
    by (rule sint64_word_of_int)
  moreover have "word_of_int (?q + ?s) = trunc_quo a n + (if a <s 0 then - 1 else 1)"
    by (simp add: trunc_quo_def word_sless_alt)
  ultimately show ?thesis by simp
qed

lemma Split_sum_int:
  assumes "0 <s n" and "8 * unat n \<le> maxAlloc rt" and "unat n \<le> heap_parts rt"
  shows "\<exists>ms. Split rt m n = Inr (ms, None) \<and> length ms = unat n \<and>
           (\<Sum>x\<leftarrow>ms. sint (amount x)) = sint (amount m)"
proof -
  from assms(1) have N: "0 < sint n" by (simp add: word_sless_alt)
  let ?A = "sint (amount m)"
  let ?q = "?A sdiv sint n" and ?r = "?A smod sint n"
  let ?l = "absolute (trunc_rem (amount m) n)"
  let ?y = "\<lparr>amount = trunc_quo (amount m) n + (if amount m <s 0 then - 1 else 1),
            currency = currency m\<rparr>"
  let ?x = "\<lparr>amount = trunc_quo (amount m) n, currency = currency m\<rparr>"
  let ?ms = "replicate (unat ?l) ?y @ replicate (unat n - unat ?l) ?x"
  have split: "Split rt m n = Inr (?ms, None)"
    by (rule Split_parts [OF assms])
  have L: "int (unat ?l) = \<bar>?r\<bar>"
    by (rule leftover_of_split [OF assms(1)])
  have Nn: "int (unat n) = sint n"
    using N unat64_of_nonneg [of n] by linarith
  have le: "unat ?l \<le> unat n"
    using L Nn sdiv_smod_pos_facts(2) [OF N, of ?A] by linarith
  have q: "sint (trunc_quo (amount m) n) = ?q"
    by (rule sint_trunc_quo_pos [OF assms(1)])
  have eq: "sint n * ?q + ?r = ?A"
    by (rule sdiv_smod_pos_facts(1) [OF N])
  have "(\<Sum>x\<leftarrow>?ms. sint (amount x)) = ?A"
  proof (cases "?r = 0")
    case True
    with L have "unat ?l = 0" by linarith
    with q eq True Nn show ?thesis
      by (simp add: sum_list_replicate o_def)
  next
    case False
    then have y: "sint (amount ?y) = ?q + (if ?A < 0 then - 1 else 1)"
      using sint_bumped_quo [OF assms(1), of "amount m"] by simp
    have sg: "\<bar>?r\<bar> * (if ?A < 0 then - 1 else 1) = ?r"
    proof (cases "?A < 0")
      case True
      then have "?r \<le> 0" using sdiv_smod_pos_facts(4) [OF N, of ?A] by blast
      with True show ?thesis by simp
    next
      case False
      then have "0 \<le> ?r" using sdiv_smod_pos_facts(3) [OF N, of ?A] by simp
      with False show ?thesis by simp
    qed
    have "(\<Sum>x\<leftarrow>?ms. sint (amount x)) =
          int (unat ?l) * sint (amount ?y) + int (unat n - unat ?l) * ?q"
      using q by (simp add: sum_list_replicate o_def)
    also have "\<dots> = \<bar>?r\<bar> * (?q + (if ?A < 0 then - 1 else 1)) + (sint n - \<bar>?r\<bar>) * ?q"
      using L Nn le y by (simp add: of_nat_diff)
    also have "\<dots> = sint n * ?q + \<bar>?r\<bar> * (if ?A < 0 then - 1 else 1)"
      by (simp add: algebra_simps)
    also have "\<dots> = ?A"
      using sg eq by simp
    finally show ?thesis .
  qed
  with split le show ?thesis by simp
qed

lemma Split_nth_sint:
  assumes "0 <s n" and "8 * unat n \<le> maxAlloc rt" and "unat n \<le> heap_parts rt"
  shows "\<exists>ms. Split rt m n = Inr (ms, None) \<and> length ms = unat n \<and>
           (\<forall>i<unat n. sint (amount (ms ! i)) =
              (if int i < \<bar>sint (amount m) smod sint n\<bar>
               then sint (amount m) sdiv sint n + (if sint (amount m) < 0 then - 1 else 1)
               else sint (amount m) sdiv sint n))"
proof -
  from assms(1) have N: "0 < sint n" by (simp add: word_sless_alt)
  let ?A = "sint (amount m)"
  let ?q = "?A sdiv sint n" and ?r = "?A smod sint n"
  let ?l = "absolute (trunc_rem (amount m) n)"
  let ?y = "\<lparr>amount = trunc_quo (amount m) n + (if amount m <s 0 then - 1 else 1),
            currency = currency m\<rparr>"
  let ?x = "\<lparr>amount = trunc_quo (amount m) n, currency = currency m\<rparr>"
  let ?ms = "replicate (unat ?l) ?y @ replicate (unat n - unat ?l) ?x"
  have split: "Split rt m n = Inr (?ms, None)"
    by (rule Split_parts [OF assms])
  have L: "int (unat ?l) = \<bar>?r\<bar>"
    by (rule leftover_of_split [OF assms(1)])
  have Nn: "int (unat n) = sint n"
    using N unat64_of_nonneg [of n] by linarith
  have le: "unat ?l \<le> unat n"
    using L Nn sdiv_smod_pos_facts(2) [OF N, of ?A] by linarith
  have q: "sint (amount ?x) = ?q"
    using sint_trunc_quo_pos [OF assms(1)] by simp
  have "sint (amount (?ms ! i)) =
          (if int i < \<bar>?r\<bar> then ?q + (if ?A < 0 then - 1 else 1) else ?q)"
    if "i < unat n" for i
  proof (cases "i < unat ?l")
    case True
    with L have "?r \<noteq> 0" by linarith
    then have "sint (amount ?y) = ?q + (if ?A < 0 then - 1 else 1)"
      using sint_bumped_quo [OF assms(1), of "amount m"] by simp
    moreover have "?ms ! i = ?y"
      using True by (simp add: nth_append)
    moreover have "int i < \<bar>?r\<bar>"
      using True L by linarith
    ultimately show ?thesis by simp
  next
    case False
    then have "?ms ! i = ?x"
      using that by (simp add: nth_append)
    moreover have "\<not> int i < \<bar>?r\<bar>"
      using False L by linarith
    ultimately show ?thesis using q by simp
  qed
  with split le show ?thesis by simp
qed

lemma sum_list_amount_sint:
  "sum_list (map amount ms) = word_of_int (\<Sum>x\<leftarrow>ms. sint (amount x))"
  by (induction ms) simp_all

text \<open>
  C3, as stated: for every Money value and every \<open>n > 0\<close>, \<open>Split\<close> succeeds, with parts
  that add up to the amount. It does not for every \<open>n\<close>: on linux/amd64 the call
  \<open>Split(math.MaxInt64)\<close> asks \<open>make\<close> for \<open>2^63 - 1\<close> pointers, far above
  \<open>maxAlloc\<close>, and panics with "makeslice: len out of range".
\<close>

theorem Split_huge_count_counterexample:
  "(0 :: 64 word) <s 9223372036854775807 \<and>
   Split linux_amd64 \<lparr>amount = 1000, currency = USD\<rparr> 9223372036854775807 =
     Inl MakesliceLenOutOfRange"
  by (simp add: Split_def divide_calc_def linux_amd64_def word_sless_alt word_sle_eq)

text \<open>
  C3, amended: for every Money value and every \<open>n > 0\<close> that the run-time can allocate
  (\<open>8 * n\<close> bytes within the allocator's limit, and free memory for \<open>n\<close> parts),
  \<open>Split\<close> succeeds with \<open>n\<close> parts whose amounts add up to the original amount,
  exactly: the sum of the parts read as (unbounded) integers is the amount, and so is their
  sum in int64 arithmetic. Whenever \<open>Split\<close> returns parts at all, there are \<open>n\<close> of
  them and they add up to the amount in the same way. For \<open>n > 0\<close> with \<open>8 * n\<close>
  above the allocator's limit it panics with "makeslice: len out of range". For
  \<open>n \<le> 0\<close> it returns the error "split must be higher than zero" and no parts.
\<close>

theorem Split_conserves_amount:
  "(0 <s n \<and> 8 * unat n \<le> maxAlloc rt \<and> unat n \<le> heap_parts rt \<longrightarrow>
      (\<exists>ms. Split rt m n = Inr (ms, None) \<and> length ms = unat n \<and>
            (\<Sum>x\<leftarrow>ms. sint (amount x)) = sint (amount m) \<and>
            sum_list (map amount ms) = amount m)) \<and>
   (Split rt m n = Inr (ps, None) \<longrightarrow>
      length ps = unat n \<and> (\<Sum>x\<leftarrow>ps. sint (amount x)) = sint (amount m) \<and>
      sum_list (map amount ps) = amount m) \<and>
   (0 <s n \<and> maxAlloc rt < 8 * unat n \<longrightarrow> Split rt m n = Inl MakesliceLenOutOfRange) \<and>
   (n \<le>s 0 \<longrightarrow> Split rt m n = Inr ([], Some (ErrorsNew ''split must be higher than zero'')))"
proof -
  have sums: "\<exists>ms. Split rt m n = Inr (ms, None) \<and> length ms = unat n \<and>
            (\<Sum>x\<leftarrow>ms. sint (amount x)) = sint (amount m) \<and>
            sum_list (map amount ms) = amount m"
    if "0 <s n \<and> 8 * unat n \<le> maxAlloc rt \<and> unat n \<le> heap_parts rt"
  proof -
    from that have h: "0 <s n" "8 * unat n \<le> maxAlloc rt" "unat n \<le> heap_parts rt"
      by simp_all
    from Split_sum_int [OF h, of m] obtain ms where
      ms: "Split rt m n = Inr (ms, None)" "length ms = unat n"
          "(\<Sum>x\<leftarrow>ms. sint (amount x)) = sint (amount m)"
      by blast
    have "sum_list (map amount ms) = amount m"
      by (simp add: sum_list_amount_sint ms(3))
    with ms show ?thesis by blast
  qed
  have returned: "length ps = unat n \<and> (\<Sum>x\<leftarrow>ps. sint (amount x)) = sint (amount m) \<and>
      sum_list (map amount ps) = amount m"
    if "Split rt m n = Inr (ps, None)"
    using sums [OF Split_returns_only_if [OF that]] that by auto
  have panics: "Split rt m n = Inl MakesliceLenOutOfRange"
    if "0 <s n \<and> maxAlloc rt < 8 * unat n"
    using that Split_makeslice_panic [of n rt m] by simp
  have fails: "Split rt m n = Inr ([], Some (ErrorsNew ''split must be higher than zero''))"
    if "n \<le>s 0"
    using that by (simp add: Split_def)
  from sums returned panics fails show ?thesis by blast
qed

text \<open>The two scenarios of the specification, for any currency.\<close>

lemma Split_1000_3:
  assumes "24 \<le> maxAlloc rt" and "3 \<le> heap_parts rt"
  shows "Split rt \<lparr>amount = 1000, currency = c\<rparr> 3 =
     Inr ([\<lparr>amount = 334, currency = c\<rparr>, \<lparr>amount = 333, currency = c\<rparr>,
           \<lparr>amount = 333, currency = c\<rparr>], None)"
proof -
  have "(0 :: 64 word) <s 3" "8 * unat (3 :: 64 word) \<le> maxAlloc rt"
      "unat (3 :: 64 word) \<le> heap_parts rt"
    using assms by (simp_all add: word_sless_alt)
  from Split_parts [OF this, of "\<lparr>amount = 1000, currency = c\<rparr>"]
  show ?thesis
    by (simp add: eval_simps) (simp add: numeral_2_eq_2)
qed

lemma Split_minus_1000_3:
  assumes "24 \<le> maxAlloc rt" and "3 \<le> heap_parts rt"
  shows "Split rt \<lparr>amount = - 1000, currency = c\<rparr> 3 =
     Inr ([\<lparr>amount = - 334, currency = c\<rparr>, \<lparr>amount = - 333, currency = c\<rparr>,
           \<lparr>amount = - 333, currency = c\<rparr>], None)"
proof -
  have "(0 :: 64 word) <s 3" "8 * unat (3 :: 64 word) \<le> maxAlloc rt"
      "unat (3 :: 64 word) \<le> heap_parts rt"
    using assms by (simp_all add: word_sless_alt)
  from Split_parts [OF this, of "\<lparr>amount = - 1000, currency = c\<rparr>"]
  show ?thesis
    by (simp add: eval_simps) (simp add: numeral_2_eq_2)
qed

theorem Split_conserves_amount_witness:
  "(0 :: 64 word) <s 3 \<and> 8 * unat (3 :: 64 word) \<le> maxAlloc linux_amd64 \<and>
   unat (3 :: 64 word) \<le> heap_parts linux_amd64 \<and>
   (\<exists>ms. Split linux_amd64 \<lparr>amount = 1000, currency = USD\<rparr> 3 = Inr (ms, None) \<and>
         length ms = 3 \<and> (\<Sum>x\<leftarrow>ms. sint (amount x)) = 1000 \<and>
         sum_list (map amount ms) = 1000) \<and>
   Split linux_amd64 \<lparr>amount = 1000, currency = USD\<rparr> 3 =
     Inr ([\<lparr>amount = 334, currency = USD\<rparr>, \<lparr>amount = 333, currency = USD\<rparr>,
           \<lparr>amount = 333, currency = USD\<rparr>], None) \<and>
   (\<Sum>x\<leftarrow>[\<lparr>amount = 334, currency = USD\<rparr>, \<lparr>amount = 333, currency = USD\<rparr>,
        \<lparr>amount = 333, currency = USD\<rparr>]. sint (amount x)) = 1000 \<and>
   (0 :: 64 word) <s 9223372036854775807 \<and>
   maxAlloc linux_amd64 < 8 * unat (9223372036854775807 :: 64 word) \<and>
   Split linux_amd64 \<lparr>amount = 1000, currency = USD\<rparr> 9223372036854775807 =
     Inl MakesliceLenOutOfRange \<and>
   (0 :: 64 word) \<le>s 0 \<and>
   Split linux_amd64 \<lparr>amount = 1000, currency = USD\<rparr> 0 =
     Inr ([], Some (ErrorsNew ''split must be higher than zero''))"
proof -
  let ?m = "\<lparr>amount = 1000, currency = USD\<rparr>"
  let ?ps = "[\<lparr>amount = 334, currency = USD\<rparr>, \<lparr>amount = 333, currency = USD\<rparr>,
              \<lparr>amount = 333, currency = USD\<rparr>]"
  have three: "(0 :: 64 word) <s 3" "8 * unat (3 :: 64 word) \<le> maxAlloc linux_amd64"
      "unat (3 :: 64 word) \<le> heap_parts linux_amd64"
    by (simp_all add: word_sless_alt linux_amd64_def)
  have huge: "(0 :: 64 word) <s 9223372036854775807"
      "maxAlloc linux_amd64 < 8 * unat (9223372036854775807 :: 64 word)"
    by (simp_all add: word_sless_alt linux_amd64_def)
  have zero: "(0 :: 64 word) \<le>s 0" by simp
  have ret: "Split linux_amd64 ?m 3 = Inr (?ps, None)"
    by (rule Split_1000_3) (simp_all add: linux_amd64_def)
  from Split_conserves_amount [of 3 linux_amd64 ?m ?ps] three ret
  have "\<exists>ms. Split linux_amd64 ?m 3 = Inr (ms, None) \<and> length ms = 3 \<and>
         (\<Sum>x\<leftarrow>ms. sint (amount x)) = 1000 \<and> sum_list (map amount ms) = 1000"
    and "(\<Sum>x\<leftarrow>?ps. sint (amount x)) = 1000"
    by simp_all
  moreover from Split_conserves_amount [of 9223372036854775807 linux_amd64 ?m ?ps] huge
  have "Split linux_amd64 ?m 9223372036854775807 = Inl MakesliceLenOutOfRange"
    by blast
  moreover from Split_conserves_amount [of 0 linux_amd64 ?m ?ps] zero
  have "Split linux_amd64 ?m 0 = Inr ([], Some (ErrorsNew ''split must be higher than zero''))"
    by blast
  ultimately show ?thesis using three huge zero ret by simp
qed

text \<open>
  C4: for every Money value and every \<open>n > 0\<close>, any two parts returned by \<open>Split\<close>
  differ by at most one smallest unit, and a part is never smaller in absolute value than
  a part after it: this holds of every slice of parts that \<open>Split\<close> returns, and
  \<open>Split\<close> does return \<open>n\<close> parts whenever the run-time can allocate them.
  \<open>split(1000, 3)\<close> is \<open>[334, 333, 333]\<close> and \<open>split(-1000, 3)\<close> is
  \<open>[-334, -333, -333]\<close>, on a run-time that can allocate three parts.
\<close>

theorem Split_fairness:
  "(Split rt m n = Inr (ms, None) \<longrightarrow>
      0 <s n \<and> length ms = unat n \<and>
      (\<forall>i<length ms. \<forall>j<length ms.
         \<bar>sint (amount (ms ! i)) - sint (amount (ms ! j))\<bar> \<le> 1) \<and>
      (\<forall>i j. i \<le> j \<and> j < length ms \<longrightarrow>
         \<bar>sint (amount (ms ! j))\<bar> \<le> \<bar>sint (amount (ms ! i))\<bar>)) \<and>
   (0 <s n \<and> 8 * unat n \<le> maxAlloc rt \<and> unat n \<le> heap_parts rt \<longrightarrow>
      (\<exists>ps. Split rt m n = Inr (ps, None) \<and> length ps = unat n)) \<and>
   (24 \<le> maxAlloc rt \<and> 3 \<le> heap_parts rt \<longrightarrow>
      Split rt \<lparr>amount = 1000, currency = c\<rparr> 3 =
        Inr ([\<lparr>amount = 334, currency = c\<rparr>, \<lparr>amount = 333, currency = c\<rparr>,
              \<lparr>amount = 333, currency = c\<rparr>], None) \<and>
      Split rt \<lparr>amount = - 1000, currency = c\<rparr> 3 =
        Inr ([\<lparr>amount = - 334, currency = c\<rparr>, \<lparr>amount = - 333, currency = c\<rparr>,
              \<lparr>amount = - 333, currency = c\<rparr>], None))"
proof -
  have fair: "0 <s n \<and> length ms = unat n \<and>
      (\<forall>i<length ms. \<forall>j<length ms.
         \<bar>sint (amount (ms ! i)) - sint (amount (ms ! j))\<bar> \<le> 1) \<and>
      (\<forall>i j. i \<le> j \<and> j < length ms \<longrightarrow>
         \<bar>sint (amount (ms ! j))\<bar> \<le> \<bar>sint (amount (ms ! i))\<bar>)"
    if ret: "Split rt m n = Inr (ms, None)"
  proof -
    from Split_returns_only_if [OF ret]
    have h: "0 <s n" "8 * unat n \<le> maxAlloc rt" "unat n \<le> heap_parts rt"
      by simp_all
    from h(1) have N: "0 < sint n" by (simp add: word_sless_alt)
    let ?A = "sint (amount m)"
    let ?q = "?A sdiv sint n" and ?r = "?A smod sint n"
    let ?s = "if ?A < 0 then - 1 else 1 :: int"
    from Split_nth_sint [OF h, of m] ret have len: "length ms = unat n"
      and nth: "\<And>i. i < unat n \<Longrightarrow>
             sint (amount (ms ! i)) = (if int i < \<bar>?r\<bar> then ?q + ?s else ?q)"
      by auto
    have abs_bump: "\<bar>?q + ?s\<bar> = \<bar>?q\<bar> + 1"
      using sdiv_smod_pos_facts(3,4) [OF N, of ?A] by (cases "?A < 0") auto
    have "\<bar>sint (amount (ms ! i)) - sint (amount (ms ! j))\<bar> \<le> 1"
      if "i < length ms" "j < length ms" for i j
      using that len by (simp add: nth)
    moreover have "\<bar>sint (amount (ms ! j))\<bar> \<le> \<bar>sint (amount (ms ! i))\<bar>"
      if "i \<le> j" "j < length ms" for i j
    proof -
      from that len have "i < unat n" "j < unat n" by simp_all
      then show ?thesis
        using that(1) abs_bump by (simp add: nth)
    qed
    ultimately show ?thesis using h(1) len by blast
  qed
  have returns: "\<exists>ps. Split rt m n = Inr (ps, None) \<and> length ps = unat n"
    if "0 <s n \<and> 8 * unat n \<le> maxAlloc rt \<and> unat n \<le> heap_parts rt"
  proof -
    from that have h: "0 <s n" "8 * unat n \<le> maxAlloc rt" "unat n \<le> heap_parts rt"
      by simp_all
    from Split_nth_sint [OF h, of m] show ?thesis by blast
  qed
  have scenarios:
    "Split rt \<lparr>amount = 1000, currency = c\<rparr> 3 =
        Inr ([\<lparr>amount = 334, currency = c\<rparr>, \<lparr>amount = 333, currency = c\<rparr>,
              \<lparr>amount = 333, currency = c\<rparr>], None) \<and>
     Split rt \<lparr>amount = - 1000, currency = c\<rparr> 3 =
        Inr ([\<lparr>amount = - 334, currency = c\<rparr>, \<lparr>amount = - 333, currency = c\<rparr>,
              \<lparr>amount = - 333, currency = c\<rparr>], None)"
    if "24 \<le> maxAlloc rt \<and> 3 \<le> heap_parts rt"
    using that Split_1000_3 [of rt c] Split_minus_1000_3 [of rt c] by simp
  from fair returns scenarios show ?thesis by blast
qed

theorem Split_fairness_witness:
  "(0 :: 64 word) <s 7 \<and> 8 * unat (7 :: 64 word) \<le> maxAlloc linux_amd64 \<and>
   unat (7 :: 64 word) \<le> heap_parts linux_amd64 \<and>
   (\<exists>ps. Split linux_amd64 \<lparr>amount = 1000, currency = USD\<rparr> 7 = Inr (ps, None) \<and>
         length ps = 7 \<and>
         \<bar>sint (amount (ps ! 0)) - sint (amount (ps ! 6))\<bar> \<le> 1 \<and>
         \<bar>sint (amount (ps ! 6))\<bar> \<le> \<bar>sint (amount (ps ! 0))\<bar>) \<and>
   (24 :: nat) \<le> maxAlloc linux_amd64 \<and> (3 :: nat) \<le> heap_parts linux_amd64 \<and>
   Split linux_amd64 \<lparr>amount = 1000, currency = USD\<rparr> 3 =
     Inr ([\<lparr>amount = 334, currency = USD\<rparr>, \<lparr>amount = 333, currency = USD\<rparr>,
           \<lparr>amount = 333, currency = USD\<rparr>], None) \<and>
   Split linux_amd64 \<lparr>amount = - 1000, currency = USD\<rparr> 3 =
     Inr ([\<lparr>amount = - 334, currency = USD\<rparr>, \<lparr>amount = - 333, currency = USD\<rparr>,
           \<lparr>amount = - 333, currency = USD\<rparr>], None)"
proof -
  let ?m = "\<lparr>amount = 1000, currency = USD\<rparr>"
  have seven: "(0 :: 64 word) <s 7 \<and> 8 * unat (7 :: 64 word) \<le> maxAlloc linux_amd64 \<and>
      unat (7 :: 64 word) \<le> heap_parts linux_amd64"
    by (simp add: word_sless_alt linux_amd64_def)
  have room: "(24 :: nat) \<le> maxAlloc linux_amd64 \<and> (3 :: nat) \<le> heap_parts linux_amd64"
    by (simp add: linux_amd64_def)
  from Split_fairness [of linux_amd64 ?m 7 "[]" USD] seven
  obtain ps where ps: "Split linux_amd64 ?m 7 = Inr (ps, None)" "length ps = 7"
    by auto
  from Split_fairness [of linux_amd64 ?m 7 ps USD] ps(1)
  have "\<forall>i<length ps. \<forall>j<length ps. \<bar>sint (amount (ps ! i)) - sint (amount (ps ! j))\<bar> \<le> 1"
    and "\<forall>i j. i \<le> j \<and> j < length ps \<longrightarrow>
           \<bar>sint (amount (ps ! j))\<bar> \<le> \<bar>sint (amount (ps ! i))\<bar>"
    by blast+
  with ps(2) have "\<bar>sint (amount (ps ! 0)) - sint (amount (ps ! 6))\<bar> \<le> 1"
    and "\<bar>sint (amount (ps ! 6))\<bar> \<le> \<bar>sint (amount (ps ! 0))\<bar>"
    by simp_all
  with ps have first: "\<exists>ps. Split linux_amd64 ?m 7 = Inr (ps, None) \<and> length ps = 7 \<and>
         \<bar>sint (amount (ps ! 0)) - sint (amount (ps ! 6))\<bar> \<le> 1 \<and>
         \<bar>sint (amount (ps ! 6))\<bar> \<le> \<bar>sint (amount (ps ! 0))\<bar>"
    by blast
  from Split_fairness [of linux_amd64 ?m 7 "[]" USD] room
  have "Split linux_amd64 \<lparr>amount = 1000, currency = USD\<rparr> 3 =
     Inr ([\<lparr>amount = 334, currency = USD\<rparr>, \<lparr>amount = 333, currency = USD\<rparr>,
           \<lparr>amount = 333, currency = USD\<rparr>], None)"
    and "Split linux_amd64 \<lparr>amount = - 1000, currency = USD\<rparr> 3 =
     Inr ([\<lparr>amount = - 334, currency = USD\<rparr>, \<lparr>amount = - 333, currency = USD\<rparr>,
           \<lparr>amount = - 333, currency = USD\<rparr>], None)"
    by blast+
  with first seven room show ?thesis by simp
qed

section \<open>The currency guard\<close>

lemma deref_valid: "p < length h \<Longrightarrow> deref h p = Inr (h ! p)"
  by (simp add: deref_def)

lemma assertSameCurrency_valid:
  "m < length h \<Longrightarrow> om < length h \<Longrightarrow>
   assertSameCurrency h m om =
     Inr (if Code (currency (h ! m)) = Code (currency (h ! om)) then None
          else Some ErrCurrencyMismatch)"
  by (simp add: assertSameCurrency_def SameCurrency_def deref_valid equals_def)

lemma sum_operands_mismatch:
  "m < length h \<Longrightarrow> \<forall>r\<in>set ms. r < length h \<Longrightarrow> om \<in> set ms \<Longrightarrow>
   Code (currency (h ! m)) \<noteq> Code (currency (h ! om)) \<Longrightarrow>
   sum_operands h m ms k = Inr (Inl ErrCurrencyMismatch)"
proof (induction ms arbitrary: k)
  case Nil
  then show ?case by simp
next
  case (Cons m2 ms)
  show ?case
  proof (cases "Code (currency (h ! m)) = Code (currency (h ! m2))")
    case True
    with Cons.prems have "om \<in> set ms" by auto
    with Cons True show ?thesis
      by (simp add: assertSameCurrency_valid deref_valid)
  next
    case False
    with Cons.prems show ?thesis
      by (simp add: assertSameCurrency_valid)
  qed
qed

text \<open>
  C8: between two Money values \<open>m\<close> and \<open>om\<close> of unequal currency codes, \<open>Equals\<close>,
  \<open>Compare\<close>, \<open>GreaterThan\<close>, \<open>LessThan\<close>, \<open>Add\<close> and \<open>Subtract\<close> return
  \<open>ErrCurrencyMismatch\<close>. What comes with the error holds nothing computed from the
  other operand: \<open>false\<close> for the three tests, the \<open>nil\<close> pointer for \<open>Add\<close> and
  \<open>Subtract\<close>, and for \<open>Compare\<close> the receiver's own amount. \<open>Add\<close> and
  \<open>Subtract\<close> give back the heap they were given, so no operand has changed, and the
  comparison methods write nothing. With several operands \<open>ms\<close>, one operand \<open>om\<close> of
  another currency anywhere in the list makes \<open>Add\<close> and \<open>Subtract\<close> fail in the same
  way, whatever was summed before it.
\<close>

theorem currency_mismatch_fails:
  assumes "m < length h" and "om < length h"
    and "Code (currency (h ! m)) \<noteq> Code (currency (h ! om))"
    and "\<forall>r\<in>set ms. r < length h" and "om \<in> set ms"
  shows "Equals h m om = Inr (False, Some ErrCurrencyMismatch) \<and>
         Compare h m om = Inr (amount (h ! m), Some ErrCurrencyMismatch) \<and>
         GreaterThan h m om = Inr (False, Some ErrCurrencyMismatch) \<and>
         LessThan h m om = Inr (False, Some ErrCurrencyMismatch) \<and>
         Add h m [om] = Inr (h, None, Some ErrCurrencyMismatch) \<and>
         Subtract h m [om] = Inr (h, None, Some ErrCurrencyMismatch) \<and>
         Add h m ms = Inr (h, None, Some ErrCurrencyMismatch) \<and>
         Subtract h m ms = Inr (h, None, Some ErrCurrencyMismatch)"
proof -
  have ms: "ms \<noteq> []" using assms(5) by auto
  have one: "sum_operands h m [om] 0 = Inr (Inl ErrCurrencyMismatch)"
    using assms(1-3) by (simp add: assertSameCurrency_valid)
  have many: "sum_operands h m ms 0 = Inr (Inl ErrCurrencyMismatch)"
    by (rule sum_operands_mismatch [OF assms(1) assms(4) assms(5) assms(3)])
  show ?thesis
    using assms(1-3) ms one many
    by (simp add: Equals_def Compare_def GreaterThan_def LessThan_def Add_def Subtract_def
          assertSameCurrency_valid deref_valid)
qed

theorem currency_mismatch_fails_witness:
  "(0 :: nat) < length three_values \<and> (1 :: nat) < length three_values \<and>
   Code (currency (three_values ! 0)) \<noteq> Code (currency (three_values ! 1)) \<and>
   (2 :: nat) < length three_values \<and> (1 :: nat) \<in> set [2, 1] \<and>
   Equals three_values 0 1 = Inr (False, Some ErrCurrencyMismatch) \<and>
   Compare three_values 0 1 = Inr (100, Some ErrCurrencyMismatch) \<and>
   GreaterThan three_values 0 1 = Inr (False, Some ErrCurrencyMismatch) \<and>
   LessThan three_values 0 1 = Inr (False, Some ErrCurrencyMismatch) \<and>
   Add three_values 0 [1] = Inr (three_values, None, Some ErrCurrencyMismatch) \<and>
   Subtract three_values 0 [1] = Inr (three_values, None, Some ErrCurrencyMismatch) \<and>
   Add three_values 0 [2, 1] = Inr (three_values, None, Some ErrCurrencyMismatch) \<and>
   Subtract three_values 0 [2, 1] = Inr (three_values, None, Some ErrCurrencyMismatch)"
proof -
  have hyps: "(0 :: nat) < length three_values" "(1 :: nat) < length three_values"
    "Code (currency (three_values ! 0)) \<noteq> Code (currency (three_values ! 1))"
    "\<forall>r\<in>set [2, 1]. r < length three_values" "(1 :: nat) \<in> set [2, 1]"
    by (simp_all add: three_values_def USD_def EUR_def)
  have "amount (three_values ! 0) = 100"
    by (simp add: three_values_def)
  with hyps currency_mismatch_fails [OF hyps] show ?thesis
    by simp
qed

text \<open>
  C10: with no operand, \<open>Add\<close> and \<open>Subtract\<close> return the receiver itself (the very
  pointer \<open>m\<close>, hence the same amount and currency) and no error, and leave the heap as
  it was.
\<close>

theorem no_operands_returns_receiver:
  "Add h m [] = Inr (h, Some m, None) \<and> Subtract h m [] = Inr (h, Some m, None)"
  by (simp add: Add_def Subtract_def)

section \<open>Allocate\<close>

text \<open>The scenarios of the specification, for any currency.\<close>

lemma Allocate_examples:
  "Allocate \<lparr>amount = 10000, currency = c\<rparr> [50, 30, 20] =
     Inr ([\<lparr>amount = 5000, currency = c\<rparr>, \<lparr>amount = 3000, currency = c\<rparr>,
           \<lparr>amount = 2000, currency = c\<rparr>], None)"
  "Allocate \<lparr>amount = 100, currency = c\<rparr> [33, 33, 33] =
     Inr ([\<lparr>amount = 34, currency = c\<rparr>, \<lparr>amount = 33, currency = c\<rparr>,
           \<lparr>amount = 33, currency = c\<rparr>], None)"
  "Allocate \<lparr>amount = 100, currency = c\<rparr> [0, 0, 0] =
     Inr ([\<lparr>amount = 0, currency = c\<rparr>, \<lparr>amount = 0, currency = c\<rparr>,
           \<lparr>amount = 0, currency = c\<rparr>], None)"
  by (simp_all add: Allocate_def allocate_def MaxInt64_def eval_simps Let_def alloc_leftover.simps)

text \<open>
  C2 says that the cursor of the leftover loop wraps back to part 0 when units are left
  after the last part, so that no index leaves the slice. The loop has no wrap: with one
  part and two units left over it adds one unit to part 0 and then indexes \<open>ms[1]\<close>.
  \<open>Allocate\<close> gets there when the product \<open>amount * ratio\<close> overflows: for the amount
  \<open>2^62\<close> and the single ratio 2 the product wraps to \<open>-2^63\<close>, the party is
  \<open>-2^62\<close>, the leftover \<open>2^62 - (-2^62)\<close> wraps to \<open>-2^63\<close>, and the second
  iteration panics.
\<close>

theorem Allocate_cursor_leaves_the_slice:
  "alloc_leftover [\<lparr>amount = 0, currency = USD\<rparr>] 0 2 1 = Inl IndexOutOfRange \<and>
   Allocate \<lparr>amount = 4611686018427387904, currency = USD\<rparr> [2] = Inl IndexOutOfRange"
  by (simp add: Allocate_def allocate_def MaxInt64_def eval_simps Let_def alloc_leftover.simps)

text \<open>
  C1 says that \<open>Allocate\<close> succeeds, with parts that add up to the amount, for every
  Money value and every non-empty list of non-negative ratios whose sum is positive and
  does not overflow. For 10,000,000,000 smallest units and the ratios 1,000,000,000 and 1
  the sum of the ratios is 1,000,000,001, the first product \<open>10^19\<close> wraps to
  \<open>-8446744073709551616\<close>, the parties are \<open>-8446744065\<close> and 9, the leftover is
  18446744056, and the loop leaves the slice of two parts at its third iteration.
\<close>

theorem Allocate_panics_on_overflowing_product:
  "Allocate \<lparr>amount = 10000000000, currency = USD\<rparr> [1000000000, 1] = Inl IndexOutOfRange"
  by (simp add: Allocate_def allocate_def MaxInt64_def eval_simps Let_def alloc_leftover.simps)

text \<open>
  In general: the loop panics whenever a positive leftover is larger than the number of
  parts from the cursor to the end of the slice.
\<close>

lemma alloc_leftover_no_wrap:
  "length ms - p < unat lo \<Longrightarrow> alloc_leftover ms p lo 1 = Inl IndexOutOfRange"
proof (induction "length ms - p" arbitrary: ms p lo)
  case 0
  then have "lo \<noteq> 0" "length ms \<le> p" by auto
  then show ?case by (simp add: alloc_leftover.simps)
next
  case (Suc d)
  then have lo: "lo \<noteq> 0" and p: "p < length ms" by auto
  let ?ms = "ms[p := (ms ! p)\<lparr>amount := add (amount (ms ! p)) 1\<rparr>]"
  have "unat (lo - 1) = unat lo - 1"
    using lo by (simp add: unat_minus_one)
  with Suc.prems Suc.hyps(2) have "length ?ms - Suc p < unat (lo - 1)" "d = length ?ms - Suc p"
    by simp_all
  then have "alloc_leftover ?ms (Suc p) (lo - 1) 1 = Inl IndexOutOfRange"
    using Suc.hyps(1) by blast
  then show ?case
    using lo p by (subst alloc_leftover.simps) simp
qed

subsection \<open>What Allocate does when it returns\<close>

text \<open>
  Each iteration of the leftover loop moves one unit from the leftover to a part, so
  whenever the loop ends without a panic the parts add up (in int64 arithmetic) to the
  amount.
\<close>

lemma alloc_parties_eq:
  "alloc_parties m rsum rs (ms, tot) =
     (ms @ map (\<lambda>r. \<lparr>amount = allocate (amount m) r rsum, currency = currency m\<rparr>) rs,
      tot + (\<Sum>r\<leftarrow>rs. allocate (amount m) r rsum))"
  by (induction rs arbitrary: ms tot) (simp_all add: Let_def add.assoc)

lemma sum_list_amount_update:
  "p < length ms \<Longrightarrow>
   sum_list (map amount (ms[p := (ms ! p)\<lparr>amount := add (amount (ms ! p)) v\<rparr>])) =
   sum_list (map amount ms) + v"
proof (induction ms arbitrary: p)
  case Nil
  then show ?case by simp
next
  case (Cons x ms)
  then show ?case by (cases p) (simp_all add: add_def)
qed

lemma alloc_leftover_invariant:
  "alloc_leftover ms p lo sub = Inr ms' \<Longrightarrow>
   length ms' = length ms \<and> sum_list (map amount ms') = sum_list (map amount ms) + lo"
proof (induction ms p lo sub rule: alloc_leftover.induct)
  case (1 ms p lo sub)
  show ?case
  proof (cases "lo = 0")
    case True
    with "1.prems" show ?thesis by (simp add: alloc_leftover.simps)
  next
    case False
    show ?thesis
    proof (cases "length ms \<le> p")
      case True
      with False "1.prems" show ?thesis by (simp add: alloc_leftover.simps)
    next
      case inside: False
      let ?ms = "ms[p := (ms ! p)\<lparr>amount := add (amount (ms ! p)) sub\<rparr>]"
      from False inside "1.prems" have "alloc_leftover ?ms (Suc p) (lo - sub) sub = Inr ms'"
        by (subst (asm) alloc_leftover.simps) simp
      from "1.IH" [OF False inside this] inside show ?thesis
        by (simp add: sum_list_amount_update)
    qed
  qed
qed

lemma Allocate_returns_conserved:
  assumes "Allocate m rs = Inr (ms, None)" and "ratio_sum rs 0 \<noteq> Inr 0"
  shows "length ms = length rs \<and> sum_list (map amount ms) = amount m"
proof -
  from assms(1) have rs: "rs \<noteq> []"
    by (auto simp: Allocate_def)
  from assms(1) rs obtain rsum where rsum: "ratio_sum rs 0 = Inr rsum"
    by (cases "ratio_sum rs 0") (auto simp: Allocate_def)
  with assms(2) have nz: "rsum \<noteq> 0" by simp
  let ?parts = "map (\<lambda>r. \<lparr>amount = allocate (amount m) r rsum, currency = currency m\<rparr>) rs"
  let ?tot = "\<Sum>r\<leftarrow>rs. allocate (amount m) r rsum"
  let ?lo = "amount m - ?tot"
  have tot: "sum_list (map amount ?parts) = ?tot"
    by (simp add: o_def)
  from assms(1) rs rsum nz
  have "alloc_leftover ?parts 0 ?lo (if ?lo <s 0 then - 1 else 1) = Inr ms"
    by (auto simp: Allocate_def alloc_parties_eq Let_def split: sum.splits if_splits)
  from alloc_leftover_invariant [OF this] tot show ?thesis
    by simp
qed

subsection \<open>Allocate without overflow\<close>

text \<open>
  When no product \<open>amount * ratio\<close> leaves the int64 range, every party is the
  truncated share, the leftover has the sign of the amount and is smaller in absolute
  value than the number of ratios, and the loop ends inside the slice: \<open>Allocate\<close>
  returns, and its parts add up to the amount as integers. The panic above needs a
  product that wraps.
\<close>

lemma ratio_sum_ok:
  assumes "0 \<le> sint acc" and "\<forall>r\<in>set rs. 0 \<le> sint r"
    and "sint acc + (\<Sum>r\<leftarrow>rs. sint r) < 9223372036854775808"
  shows "\<exists>s. ratio_sum rs acc = Inr s \<and> sint s = sint acc + (\<Sum>r\<leftarrow>rs. sint r)"
  using assms
proof (induction rs arbitrary: acc)
  case Nil
  then show ?case by simp
next
  case (Cons r rs)
  from Cons.prems have r: "0 \<le> sint r" and rest: "\<forall>r\<in>set rs. 0 \<le> sint r"
    by simp_all
  from rest have nonneg: "0 \<le> (\<Sum>r\<leftarrow>rs. sint r)"
    by (intro sum_list_nonneg) auto
  from Cons.prems(3) have bound: "sint acc + sint r + (\<Sum>r\<leftarrow>rs. sint r) < 9223372036854775808"
    by simp
  have "sint (MaxInt64 - acc) = 9223372036854775807 - sint acc"
    using sint64_diff [of MaxInt64 acc] Cons.prems(1) sint64_upper [of acc]
    by (simp add: sint_MaxInt64)
  then have no_ovf: "\<not> MaxInt64 - acc <s r"
    using bound nonneg by (simp add: word_sless_alt)
  have not_neg: "\<not> r <s 0"
    using r by (simp add: word_sless_alt)
  have acc': "sint (acc + r) = sint acc + sint r"
    using sint64_add [of acc r] Cons.prems(1) r bound nonneg by simp
  then have "0 \<le> sint (acc + r)"
    using Cons.prems(1) r by simp
  from Cons.IH [OF this rest] acc' bound
  obtain s where "ratio_sum rs (acc + r) = Inr s"
    "sint s = sint acc + sint r + (\<Sum>r\<leftarrow>rs. sint r)"
    by auto
  with no_ovf not_neg show ?case by simp
qed

lemma sint_allocate:
  assumes "0 <s s"
    and "- 9223372036854775808 \<le> sint a * sint r" and "sint a * sint r < 9223372036854775808"
  shows "sint (allocate a r s) = (sint a * sint r) sdiv sint s"
proof (cases "a = 0")
  case True
  then show ?thesis by (simp add: allocate_def)
next
  case False
  from assms(1) have "s \<noteq> 0" by (auto simp: word_sless_alt)
  with False have "allocate a r s = trunc_quo (a * r) s"
    by (simp add: allocate_def)
  then show ?thesis
    using sint_trunc_quo_pos [OF assms(1), of "a * r"] sint64_mult [OF assms(2,3)] by simp
qed

lemma shares_decompose:
  fixes A S :: int
  shows "(\<Sum>r\<leftarrow>rs. (A * r) smod S) = A * sum_list rs - S * (\<Sum>r\<leftarrow>rs. (A * r) sdiv S)"
proof (induction rs)
  case Nil
  then show ?case by simp
next
  case (Cons r rs)
  have "(A * r) smod S = A * r - S * ((A * r) sdiv S)"
    using mult_sdiv_smod_eq [of S "A * r"] by simp
  with Cons show ?case by (simp add: algebra_simps)
qed

lemma shares_nonneg:
  fixes A S :: int
  assumes "0 < S" and "0 \<le> A" and "\<forall>r\<in>set rs. 0 \<le> r"
  shows "0 \<le> (\<Sum>r\<leftarrow>rs. (A * r) smod S) \<and>
         (\<Sum>r\<leftarrow>rs. (A * r) smod S) \<le> int (length rs) * (S - 1) \<and>
         (\<forall>r\<in>set rs. 0 \<le> (A * r) sdiv S)"
  using assms(3)
proof (induction rs)
  case Nil
  show ?case by simp
next
  case (Cons r rs)
  then have IH: "0 \<le> (\<Sum>r\<leftarrow>rs. (A * r) smod S)"
      "(\<Sum>r\<leftarrow>rs. (A * r) smod S) \<le> int (length rs) * (S - 1)"
      "\<forall>r\<in>set rs. 0 \<le> (A * r) sdiv S"
    by simp_all
  have r: "0 \<le> A * r" using assms(2) Cons.prems by simp
  have "0 \<le> (A * r) smod S" "\<bar>(A * r) smod S\<bar> < S" "0 \<le> (A * r) sdiv S"
    using sdiv_smod_pos_facts(2,3) [OF assms(1), of "A * r"] r by simp_all
  then have step: "0 \<le> (A * r) smod S" "(A * r) smod S \<le> S - 1" "0 \<le> (A * r) sdiv S"
    by linarith+
  from IH step show ?case by (simp add: algebra_simps)
qed

lemma shares_nonpos:
  fixes A S :: int
  assumes "0 < S" and "A < 0" and "\<forall>r\<in>set rs. 0 \<le> r"
  shows "(\<Sum>r\<leftarrow>rs. (A * r) smod S) \<le> 0 \<and>
         - (int (length rs) * (S - 1)) \<le> (\<Sum>r\<leftarrow>rs. (A * r) smod S) \<and>
         (\<forall>r\<in>set rs. (A * r) sdiv S \<le> 0)"
  using assms(3)
proof (induction rs)
  case Nil
  show ?case by simp
next
  case (Cons r rs)
  then have IH: "(\<Sum>r\<leftarrow>rs. (A * r) smod S) \<le> 0"
      "- (int (length rs) * (S - 1)) \<le> (\<Sum>r\<leftarrow>rs. (A * r) smod S)"
      "\<forall>r\<in>set rs. (A * r) sdiv S \<le> 0"
    by simp_all
  have r: "A * r \<le> 0" using assms(2) Cons.prems by (simp add: mult_le_0_iff)
  have abs: "\<bar>(A * r) smod S\<bar> < S"
    by (rule sdiv_smod_pos_facts(2) [OF assms(1)])
  have "(A * r) smod S \<le> 0 \<and> (A * r) sdiv S \<le> 0"
  proof (cases "A * r = 0")
    case True
    show ?thesis unfolding True by simp
  next
    case False
    with r have "A * r < 0" by linarith
    then show ?thesis using sdiv_smod_pos_facts(4) [OF assms(1), of "A * r"] by simp
  qed
  with abs have step: "(A * r) smod S \<le> 0" "- (S - 1) \<le> (A * r) smod S" "(A * r) sdiv S \<le> 0"
    by linarith+
  from IH step show ?case by (simp add: algebra_simps)
qed

lemma leftover_bounds:
  fixes A :: int
  assumes "0 < sum_list rs" and "\<forall>r\<in>set rs. 0 \<le> r"
  defines "LO \<equiv> A - (\<Sum>r\<leftarrow>rs. (A * r) sdiv sum_list rs)"
  shows "0 \<le> A \<Longrightarrow> 0 \<le> LO \<and> LO < int (length rs) \<and> LO \<le> A"
    and "A < 0 \<Longrightarrow> LO \<le> 0 \<and> - int (length rs) < LO \<and> A \<le> LO"
proof -
  let ?S = "sum_list rs"
  have n: "0 < length rs" using assms(1) by (cases rs) auto
  have dec: "(\<Sum>r\<leftarrow>rs. (A * r) smod ?S) = ?S * LO"
    unfolding LO_def
    by (simp only: shares_decompose right_diff_distrib mult.commute [of "sum_list rs" A])
  have lt: "int (length rs) * (?S - 1) < ?S * int (length rs)"
    using n assms(1) by (simp add: algebra_simps)
  show "0 \<le> LO \<and> LO < int (length rs) \<and> LO \<le> A" if "0 \<le> A"
  proof -
    from shares_nonneg [OF assms(1) that assms(2)] dec
    have "0 \<le> ?S * LO" "?S * LO \<le> int (length rs) * (?S - 1)"
      and parts: "\<forall>r\<in>set rs. 0 \<le> (A * r) sdiv ?S"
      by simp_all
    with lt have ge: "0 \<le> ?S * LO" and less: "?S * LO < ?S * int (length rs)"
      by linarith+
    from ge assms(1) have "0 \<le> LO"
      by (simp add: zero_le_mult_iff)
    moreover from less have "LO < int (length rs)"
      by (simp only: mult_less_cancel_left_pos [OF assms(1)])
    moreover have "0 \<le> (\<Sum>r\<leftarrow>rs. (A * r) sdiv ?S)"
      using parts by (intro sum_list_nonneg) auto
    then have "LO \<le> A" by (simp add: LO_def)
    ultimately show ?thesis by simp
  qed
  show "LO \<le> 0 \<and> - int (length rs) < LO \<and> A \<le> LO" if "A < 0"
  proof -
    from shares_nonpos [OF assms(1) that assms(2)] dec
    have "?S * LO \<le> 0" "- (int (length rs) * (?S - 1)) \<le> ?S * LO"
      and parts: "\<forall>r\<in>set rs. (A * r) sdiv ?S \<le> 0"
      by simp_all
    with lt have le: "?S * LO \<le> 0" and gt: "?S * (- int (length rs)) < ?S * LO"
      by simp_all
    from le assms(1) have "LO \<le> 0"
      by (simp add: mult_le_0_iff)
    moreover from gt have "- int (length rs) < LO"
      by (simp only: mult_less_cancel_left_pos [OF assms(1)])
    moreover have "(\<Sum>r\<leftarrow>rs. (A * r) sdiv ?S) \<le> 0"
      using parts by (intro sum_list_nonpos) auto
    then have "A \<le> LO" by (simp add: LO_def)
    ultimately show ?thesis by simp
  qed
qed

lemma of_nat64_neq_0:
  "0 < k \<Longrightarrow> int k < 18446744073709551616 \<Longrightarrow> (of_nat k :: 64 word) \<noteq> 0"
proof
  assume k: "0 < k" "int k < 18446744073709551616" and z: "(of_nat k :: 64 word) = 0"
  from k(2) have "k < 2 ^ 64" by simp
  then have "unat (of_nat k :: 64 word) = k"
    by (simp add: unat_of_nat take_bit_nat_eq_self)
  with z k(1) show False by simp
qed

lemma alloc_leftover_run:
  assumes "length pre = p" and "k \<le> length post" and "sub = 1 \<or> sub = - 1"
    and "int k < 18446744073709551616" and "lo = of_nat k * sub"
  shows "alloc_leftover (pre @ post) p lo sub =
     Inr (pre @ map (\<lambda>x. x\<lparr>amount := add (amount x) sub\<rparr>) (take k post) @ drop k post)"
  using assms
proof (induction k arbitrary: pre p post lo)
  case 0
  then show ?case by (simp add: alloc_leftover.simps)
next
  case (Suc k)
  from Suc.prems(2) obtain x post' where post: "post = x # post'" "k \<le> length post'"
    by (cases post) auto
  define w :: "64 word" where "w = of_nat (Suc k)"
  have "w \<noteq> 0"
    unfolding w_def using Suc.prems(4) by (intro of_nat64_neq_0) simp_all
  moreover have "lo = w * sub"
    using Suc.prems(5) by (simp add: w_def)
  ultimately have lo: "lo \<noteq> 0"
    using Suc.prems(3) by auto
  have next_lo: "lo - sub = of_nat k * sub"
    using Suc.prems(5) by (simp add: algebra_simps)
  let ?y = "x\<lparr>amount := add (amount x) sub\<rparr>"
  have "alloc_leftover (pre @ post) p lo sub =
          alloc_leftover ((pre @ [?y]) @ post') (Suc p) (lo - sub) sub"
    using lo Suc.prems(1) post(1)
    by (subst alloc_leftover.simps) (simp add: nth_append list_update_append)
  also have "\<dots> = Inr ((pre @ [?y]) @
      map (\<lambda>x. x\<lparr>amount := add (amount x) sub\<rparr>) (take k post') @ drop k post')"
    using Suc.prems(1,3,4) post(2) next_lo
    by (intro Suc.IH) simp_all
  finally show ?case using post(1) by simp
qed

lemma member_le_sum_list_int:
  fixes xs :: "int list"
  shows "\<forall>x\<in>set xs. 0 \<le> x \<Longrightarrow> y \<in> set xs \<Longrightarrow> y \<le> sum_list xs"
proof (induction xs)
  case Nil
  then show ?case by simp
next
  case (Cons x xs)
  then have "0 \<le> sum_list xs" by (intro sum_list_nonneg) simp
  with Cons show ?case by auto
qed

lemma member_ge_sum_list_int:
  fixes xs :: "int list"
  shows "\<forall>x\<in>set xs. x \<le> 0 \<Longrightarrow> y \<in> set xs \<Longrightarrow> sum_list xs \<le> y"
proof (induction xs)
  case Nil
  then show ?case by simp
next
  case (Cons x xs)
  then have "sum_list xs \<le> 0" by (intro sum_list_nonpos) simp
  with Cons show ?case by auto
qed

lemma sum_list_word_of_sint:
  "sum_list (map f xs) = (word_of_int (\<Sum>x\<leftarrow>xs. sint (f x)) :: 64 word)"
  by (induction xs) simp_all

lemma sum_list_bumped_prefix:
  fixes g :: "'a \<Rightarrow> int"
  assumes "k \<le> length xs" and "\<forall>x\<in>set xs. g (f x) = g x + d"
  shows "(\<Sum>x\<leftarrow>map f (take k xs) @ drop k xs. g x) = (\<Sum>x\<leftarrow>xs. g x) + int k * d"
proof -
  have "\<forall>x\<in>set (take k xs). g (f x) = g x + d"
    using assms(2) by (auto dest: in_set_takeD)
  then have "(\<Sum>x\<leftarrow>take k xs. g (f x)) = (\<Sum>x\<leftarrow>take k xs. g x + d)"
    by (intro arg_cong [where f = sum_list] map_cong) simp_all
  also have "\<dots> = (\<Sum>x\<leftarrow>take k xs. g x) + int k * d"
    using assms(1) by (simp add: sum_list_addf sum_list_replicate [symmetric] map_replicate_const min_def)
  finally have "(\<Sum>x\<leftarrow>map f (take k xs) @ drop k xs. g x) =
      ((\<Sum>x\<leftarrow>take k xs. g x) + (\<Sum>x\<leftarrow>drop k xs. g x)) + int k * d"
    by (simp add: o_def)
  also have "(\<Sum>x\<leftarrow>take k xs. g x) + (\<Sum>x\<leftarrow>drop k xs. g x) = (\<Sum>x\<leftarrow>xs. g x)"
    using sum_list_append [of "map g (take k xs)" "map g (drop k xs)"]
    by (simp add: map_append [symmetric] del: map_append sum_list_append)
  finally show ?thesis .
qed

lemma Allocate_conserves_without_overflow:
  assumes nonneg: "\<forall>r\<in>set rs. 0 \<le> sint r"
    and pos: "0 < (\<Sum>r\<leftarrow>rs. sint r)"
    and sum_fits: "(\<Sum>r\<leftarrow>rs. sint r) < 9223372036854775808"
    and prod_fits: "\<forall>r\<in>set rs. - 9223372036854775808 \<le> sint (amount m) * sint r \<and>
                      sint (amount m) * sint r < 9223372036854775808"
  shows "\<exists>ms. Allocate m rs = Inr (ms, None) \<and> length ms = length rs \<and>
           (\<Sum>x\<leftarrow>ms. sint (amount x)) = sint (amount m)"
proof -
  let ?A = "sint (amount m)"
  let ?R = "map sint rs"
  let ?S = "sum_list ?R"
  have S: "?S = (\<Sum>r\<leftarrow>rs. sint r)" by simp
  have rs: "rs \<noteq> []" using pos by auto
  \<comment> \<open>the first loop\<close>
  from ratio_sum_ok [of 0 rs] nonneg sum_fits
  obtain s where s: "ratio_sum rs 0 = Inr s" "sint s = ?S"
    by auto
  with pos have s_pos: "0 <s s" and s_nz: "s \<noteq> 0"
    by (auto simp: word_sless_alt)
  \<comment> \<open>the second loop\<close>
  let ?t = "\<lambda>r. (?A * sint r) sdiv ?S"
  let ?parts = "map (\<lambda>r. \<lparr>amount = allocate (amount m) r s, currency = currency m\<rparr>) rs"
  let ?tot = "\<Sum>r\<leftarrow>rs. allocate (amount m) r s"
  have share: "sint (allocate (amount m) r s) = ?t r" if "r \<in> set rs" for r
    using sint_allocate [OF s_pos, of "amount m" r] prod_fits that s(2) by simp
  then have shares: "(\<Sum>r\<leftarrow>rs. sint (allocate (amount m) r s)) = (\<Sum>r\<leftarrow>rs. ?t r)"
    by (intro arg_cong [where f = sum_list] map_cong) simp_all
  have parts_sum: "(\<Sum>x\<leftarrow>?parts. sint (amount x)) = (\<Sum>r\<leftarrow>rs. ?t r)"
    using shares by (simp add: o_def)
  \<comment> \<open>the leftover\<close>
  define LO where "LO = ?A - (\<Sum>r\<leftarrow>rs. ?t r)"
  have LO_alt: "LO = ?A - (\<Sum>x\<leftarrow>?R. (?A * x) sdiv sum_list ?R)"
    by (simp add: LO_def o_def)
  have R_nonneg: "\<forall>x\<in>set ?R. 0 \<le> x" using nonneg by simp
  have R_pos: "0 < sum_list ?R" using pos by simp
  have bounds_pos: "0 \<le> LO \<and> LO < int (length rs) \<and> LO \<le> ?A" if "0 \<le> ?A"
    using leftover_bounds(1) [OF R_pos R_nonneg that] LO_alt by simp
  have bounds_neg: "LO \<le> 0 \<and> - int (length rs) < LO \<and> ?A \<le> LO" if "?A < 0"
    using leftover_bounds(2) [OF R_pos R_nonneg that] LO_alt by simp
  have LO_range: "- 9223372036854775808 \<le> LO" "LO < 9223372036854775808"
    and LO_small: "\<bar>LO\<bar> < int (length rs)"
    using bounds_pos bounds_neg sint64_lower [of "amount m"] sint64_upper [of "amount m"]
    by (cases "0 \<le> ?A"; linarith)+
  let ?lo = "amount m - ?tot"
  have lo_word: "?lo = word_of_int LO"
    by (simp add: LO_def sum_list_word_of_sint [of "\<lambda>r. allocate (amount m) r s"] shares)
  then have lo_sint: "sint ?lo = LO"
    using LO_range by (simp add: sint64_word_of_int)
  let ?sub = "if ?lo <s 0 then - 1 else 1 :: 64 word"
  define d :: int where "d = (if LO < 0 then - 1 else 1)"
  define k where "k = nat \<bar>LO\<bar>"
  have sub_sint: "sint ?sub = d"
    using lo_sint by (simp add: word_sless_alt d_def)
  have k_d: "int k * d = LO"
    by (simp add: k_def d_def)
  have k_le: "k \<le> length ?parts"
    using LO_small by (simp add: k_def)
  have k_fits: "int k < 18446744073709551616"
    using LO_range by (simp add: k_def)
  have lo_steps: "?lo = of_nat k * ?sub"
  proof -
    have "word_of_int LO = (of_nat k * word_of_int d :: 64 word)"
      using arg_cong [OF k_d [symmetric], of word_of_int] by simp
    moreover have "(word_of_int d :: 64 word) = ?sub"
      using lo_sint by (simp add: word_sless_alt d_def)
    ultimately show ?thesis using lo_word by simp
  qed
  \<comment> \<open>the third loop\<close>
  let ?bump = "\<lambda>x. x\<lparr>amount := add (amount x) ?sub\<rparr>"
  let ?ms = "map ?bump (take k ?parts) @ drop k ?parts"
  have loop: "alloc_leftover ?parts 0 ?lo ?sub = Inr ?ms"
    using alloc_leftover_run [of "[]" 0 k ?parts ?sub ?lo] k_le k_fits lo_steps by simp
  have alloc: "Allocate m rs = Inr (?ms, None)"
    using rs s s_nz loop by (simp add: Allocate_def alloc_parties_eq Let_def)
  \<comment> \<open>no bumped part wraps\<close>
  have bumped: "sint (amount (?bump x)) = sint (amount x) + d" if "x \<in> set ?parts" and "LO \<noteq> 0" for x
  proof -
    from that(1) obtain r where r: "r \<in> set rs" "sint (amount x) = ?t r"
      using share by auto
    then have mem: "?t r \<in> set (map ?t rs)" by simp
    have "- 9223372036854775808 \<le> ?t r + d \<and> ?t r + d < 9223372036854775808"
    proof (cases "0 \<le> ?A")
      case True
      have all: "\<forall>x\<in>set (map ?t rs). 0 \<le> x"
        using shares_nonneg [OF R_pos True R_nonneg] by simp
      from member_le_sum_list_int [OF all mem]
      have "?t r \<le> ?A - LO" by (simp add: LO_def)
      moreover from all r(1) have "0 \<le> ?t r" by simp
      ultimately have "?t r \<le> ?A - LO" "0 \<le> ?t r" .
      with bounds_pos [OF True] that(2) sint64_upper [of "amount m"] show ?thesis
        by (simp add: d_def)
    next
      case False
      then have neg: "?A < 0" by simp
      have all: "\<forall>x\<in>set (map ?t rs). x \<le> 0"
        using shares_nonpos [OF R_pos neg R_nonneg] by simp
      from member_ge_sum_list_int [OF all mem]
      have "?A - LO \<le> ?t r" by (simp add: LO_def)
      moreover from all r(1) have "?t r \<le> 0" by simp
      ultimately have "?A - LO \<le> ?t r" "?t r \<le> 0" .
      with bounds_neg [OF neg] that(2) sint64_lower [of "amount m"] show ?thesis
        by (simp add: d_def)
    qed
    then have "sint (amount x + ?sub) = sint (amount x) + sint ?sub"
      using r(2) sub_sint by (intro sint64_add) simp_all
    then show ?thesis using sub_sint by (simp add: add_def)
  qed
  have "(\<Sum>x\<leftarrow>?ms. sint (amount x)) = ?A"
  proof (cases "LO = 0")
    case True
    then have "k = 0" by (simp add: k_def)
    then show ?thesis using parts_sum True by (simp add: LO_def)
  next
    case False
    with bumped have "\<forall>x\<in>set ?parts. sint (amount (?bump x)) = sint (amount x) + d"
      by blast
    from sum_list_bumped_prefix [where g = "\<lambda>x. sint (amount x)" and f = ?bump, OF k_le this]
    have "(\<Sum>x\<leftarrow>?ms. sint (amount x)) = (\<Sum>x\<leftarrow>?parts. sint (amount x)) + int k * d" .
    then show ?thesis using parts_sum k_d by (simp add: LO_def)
  qed
  moreover have "length ?ms = length rs"
    using k_le by simp
  ultimately show ?thesis using alloc by blast
qed

end
